theory Spec2Isabelle
  imports Main
begin

section \<open>The warehouse game: data model\<close>

text \<open>
  The game (\<^verbatim>\<open>ww.py\<close>, \<^verbatim>\<open>wwgame.py\<close>) keeps a \<^verbatim>\<open>Stage\<close> object holding
  Python lists of \<^verbatim>\<open>Actor\<close> objects. Actors are mutable objects that are shared
  between the lists \<^verbatim>\<open>_actors\<close> and \<^verbatim>\<open>_monsters\<close>, so the model has an explicit
  store: an actor is an address (a natural number), the store maps addresses to the
  actor's attributes, and the lists of the stage hold addresses. The class of an object
  is a field of its attributes; \<^verbatim>\<open>isinstance\<close> follows the class hierarchy of the
  source. Images, sounds and screen output are left out: no function under study reads
  them.
\<close>

datatype cls =
  Actor | Player | KeyboardPlayer | Box | StickyBox | Wall
  | Monster | FreeMonster | BoxMonster | Boss | Ripper

text \<open>\<^verbatim>\<open>isinstance(obj, c)\<close> for an object whose class is \<open>k\<close>: the subclass table of the source.\<close>

fun isinstance :: "cls \<Rightarrow> cls \<Rightarrow> bool" where
  "isinstance k Actor = True"
| "isinstance k Player = (k = Player \<or> k = KeyboardPlayer)"
| "isinstance k KeyboardPlayer = (k = KeyboardPlayer)"
| "isinstance k Box = (k = Box \<or> k = StickyBox)"
| "isinstance k StickyBox = (k = StickyBox)"
| "isinstance k Wall = (k = Wall)"
| "isinstance k Monster = (k = Monster \<or> k = FreeMonster \<or> k = BoxMonster \<or> k = Boss \<or> k = Ripper)"
| "isinstance k FreeMonster = (k = FreeMonster \<or> k = BoxMonster \<or> k = Boss \<or> k = Ripper)"
| "isinstance k BoxMonster = (k = BoxMonster \<or> k = Boss)"
| "isinstance k Boss = (k = Boss)"
| "isinstance k Ripper = (k = Ripper)"

text \<open>
  The attributes of an actor: \<^verbatim>\<open>_x\<close>, \<^verbatim>\<open>_y\<close>, \<^verbatim>\<open>_delay\<close>, \<^verbatim>\<open>_delay_count\<close> (class
  \<^verbatim>\<open>Actor\<close>), \<^verbatim>\<open>_dx\<close>, \<^verbatim>\<open>_dy\<close> (class \<^verbatim>\<open>Monster\<close>) and \<^verbatim>\<open>dead\<close> (class
  \<^verbatim>\<open>KeyboardPlayer\<close>). An attribute a class does not have is carried along and
  never read for objects of that class.
\<close>

record actor =
  a_class :: cls
  a_x :: int
  a_y :: int
  a_delay :: int
  a_delay_count :: int
  a_dx :: int
  a_dy :: int
  a_dead :: bool

type_synonym aid = nat

text \<open>
  The stage: the store of all actor objects, the lists \<^verbatim>\<open>_actors\<close> and
  \<^verbatim>\<open>_monsters\<close>, \<^verbatim>\<open>_player\<close>, \<^verbatim>\<open>_width\<close> and \<^verbatim>\<open>_height\<close>. The module
  \<^verbatim>\<open>random\<close> is a sequence of draws \<open>s_random\<close> read at the index \<open>s_drawn\<close>; the
  next unused address of the store is \<open>s_fresh\<close>.
\<close>

record stage =
  s_heap :: "aid \<Rightarrow> actor"
  s_actors :: "aid list"
  s_monsters :: "aid list"
  s_player :: "aid option"
  s_width :: int
  s_height :: int
  s_random :: "nat \<Rightarrow> nat"
  s_drawn :: nat
  s_fresh :: aid

text \<open>
  What the source raises: \<^verbatim>\<open>list.remove\<close> of an absent element and
  \<^verbatim>\<open>random.randrange\<close> of an empty range raise \<^verbatim>\<open>ValueError\<close>, \<^verbatim>\<open>%\<close> by zero
  raises \<^verbatim>\<open>ZeroDivisionError\<close>, and a chain of nested calls deeper than the
  budget of the model stands for \<^verbatim>\<open>RecursionError\<close>.
\<close>

datatype error = ValueError | ZeroDivisionError | RecursionError

section \<open>Actor and Stage: positions, bounds, lookup\<close>

definition cls_of :: "stage \<Rightarrow> aid \<Rightarrow> cls" where
  "cls_of st a = a_class (s_heap st a)"

definition set_position :: "stage \<Rightarrow> aid \<Rightarrow> int \<Rightarrow> int \<Rightarrow> stage" where
  "set_position st self x y =
     st\<lparr>s_heap := (s_heap st)(self := (s_heap st self)\<lparr>a_x := x, a_y := y\<rparr>)\<rparr>"

definition get_position :: "stage \<Rightarrow> aid \<Rightarrow> int \<times> int" where
  "get_position st self = (a_x (s_heap st self), a_y (s_heap st self))"

definition is_in_bounds_x :: "stage \<Rightarrow> int \<Rightarrow> bool" where
  "is_in_bounds_x st x = (0 \<le> x \<and> x < s_width st)"

definition is_in_bounds_y :: "stage \<Rightarrow> int \<Rightarrow> bool" where
  "is_in_bounds_y st y = (0 \<le> y \<and> y < s_height st)"

definition is_in_bounds :: "stage \<Rightarrow> int \<Rightarrow> int \<Rightarrow> bool" where
  "is_in_bounds st x y = (is_in_bounds_x st x \<and> is_in_bounds_y st y)"

text \<open>\<^verbatim>\<open>Stage.get_actor\<close>: the first actor of \<^verbatim>\<open>_actors\<close> at the position, or \<^verbatim>\<open>None\<close>.\<close>

definition get_actor :: "stage \<Rightarrow> int \<Rightarrow> int \<Rightarrow> aid option" where
  "get_actor st x y = find (\<lambda>a. get_position st a = (x, y)) (s_actors st)"

text \<open>\<^verbatim>\<open>isinstance(self._stage.get_actor(x, y), c)\<close>; \<^verbatim>\<open>None\<close> is an instance of no class.\<close>

definition actor_isinstance :: "stage \<Rightarrow> aid option \<Rightarrow> cls \<Rightarrow> bool" where
  "actor_isinstance st occ c =
     (case occ of None \<Rightarrow> False | Some a \<Rightarrow> isinstance (cls_of st a) c)"

text \<open>\<^verbatim>\<open>list.remove\<close>: removes the first occurrence, raises \<^verbatim>\<open>ValueError\<close> when there is none.\<close>

definition list_remove :: "aid list \<Rightarrow> aid \<Rightarrow> error + aid list" where
  "list_remove xs a = (if a \<in> set xs then Inr (remove1 a xs) else Inl ValueError)"

definition add_actor :: "stage \<Rightarrow> aid \<Rightarrow> stage" where
  "add_actor st actor =
     (if isinstance (cls_of st actor) Monster
      then st\<lparr>s_monsters := s_monsters st @ [actor], s_actors := s_actors st @ [actor]\<rparr>
      else st\<lparr>s_actors := s_actors st @ [actor]\<rparr>)"

definition remove_actor :: "stage \<Rightarrow> aid \<Rightarrow> error + stage" where
  "remove_actor st actor =
     (if isinstance (cls_of st actor) Monster
      then (case list_remove (s_monsters st) actor of
              Inl e \<Rightarrow> Inl e
            | Inr ms \<Rightarrow>
                (case list_remove (s_actors (st\<lparr>s_monsters := ms\<rparr>)) actor of
                   Inl e \<Rightarrow> Inl e
                 | Inr as \<Rightarrow> Inr (st\<lparr>s_monsters := ms, s_actors := as\<rparr>)))
      else (case list_remove (s_actors st) actor of
              Inl e \<Rightarrow> Inl e
            | Inr as \<Rightarrow> Inr (st\<lparr>s_actors := as\<rparr>)))"

text \<open>\<^verbatim>\<open>Stage.clear\<close>: \<^verbatim>\<open>self._actors.clear()\<close>, and nothing else.\<close>

definition clear :: "stage \<Rightarrow> stage" where
  "clear st = st\<lparr>s_actors := []\<rparr>"

section \<open>The move methods\<close>

text \<open>
  \<^verbatim>\<open>Actor.move\<close> relocates without any check and returns \<^verbatim>\<open>True\<close>. It is the
  \<^verbatim>\<open>move\<close> of the classes that do not override it (\<^verbatim>\<open>Actor\<close>, \<^verbatim>\<open>Player\<close>,
  \<^verbatim>\<open>Wall\<close>).
\<close>

definition Actor_move :: "stage \<Rightarrow> aid \<Rightarrow> aid \<Rightarrow> int \<Rightarrow> int \<Rightarrow> error + (bool \<times> stage)" where
  "Actor_move st self other dx dy =
     Inr (True, set_position st self (a_x (s_heap st self) + dx) (a_y (s_heap st self) + dy))"

text \<open>
  The \<^verbatim>\<open>move\<close> methods that call \<^verbatim>\<open>move\<close> of the occupant of the target cell, or
  \<^verbatim>\<open>step\<close> of the object itself, take the method they call as the parameter
  \<open>mv\<close> or \<open>stp\<close>; the dispatch on the class of the receiver is \<open>move\<close> below. An
  exception raised by the called method propagates.
\<close>

definition KeyboardPlayer_move ::
  "(stage \<Rightarrow> aid \<Rightarrow> aid \<Rightarrow> int \<Rightarrow> int \<Rightarrow> error + (bool \<times> stage)) \<Rightarrow>
   stage \<Rightarrow> aid \<Rightarrow> aid \<Rightarrow> int \<Rightarrow> int \<Rightarrow> error + (bool \<times> stage)" where
  "KeyboardPlayer_move mv st self other dx dy =
     (let new_x = a_x (s_heap st self) + dx; new_y = a_y (s_heap st self) + dy in
      if is_in_bounds st new_x new_y then
        (case get_actor st new_x new_y of
           None \<Rightarrow> Actor_move st self other dx dy
         | Some occ \<Rightarrow>
             (case (if \<not> isinstance (cls_of st occ) Wall
                    then (case mv st occ self dx dy of
                            Inl e \<Rightarrow> Inl e
                          | Inr (r, st1) \<Rightarrow>
                              (if get_actor st1 new_x new_y = None
                               then Inr (True, st1) else Inr (False, st1)))
                    else Inr (False, st)) of
                Inl e \<Rightarrow> Inl e
              | Inr (vacated, st1) \<Rightarrow>
                  if vacated then Actor_move st1 self other dx dy
                  else if get_actor st1 new_x new_y \<noteq> None
                          \<and> actor_isinstance st1 (get_actor st1 new_x new_y) Monster
                  then Inr (True, st1\<lparr>s_heap := (s_heap st1)(self := (s_heap st1 self)\<lparr>a_dead := True\<rparr>)\<rparr>)
                  else Inr (False, st1)))
      else Inr (False, st))"

definition Box_move ::
  "(stage \<Rightarrow> aid \<Rightarrow> aid \<Rightarrow> int \<Rightarrow> int \<Rightarrow> error + (bool \<times> stage)) \<Rightarrow>
   stage \<Rightarrow> aid \<Rightarrow> aid \<Rightarrow> int \<Rightarrow> int \<Rightarrow> error + (bool \<times> stage)" where
  "Box_move mv st self other dx dy =
     (let new_x = a_x (s_heap st self) + dx; new_y = a_y (s_heap st self) + dy in
      if is_in_bounds st new_x new_y then
        (case get_actor st new_x new_y of
           None \<Rightarrow> Actor_move st self other dx dy
         | Some occ \<Rightarrow>
             if \<not> isinstance (cls_of st occ) Wall
             then (case mv st occ self dx dy of
                     Inl e \<Rightarrow> Inl e
                   | Inr (r, st1) \<Rightarrow>
                       if get_actor st1 new_x new_y = None
                       then (case Actor_move st1 self other dx dy of
                               Inl e \<Rightarrow> Inl e
                             | Inr (r2, st2) \<Rightarrow> Inr (False, st2))
                       else Inr (False, st1))
             else Inr (False, st))
      else Inr (False, st))"

text \<open>
  \<^verbatim>\<open>Monster.move\<close>. The target cell \<open>(new_x, new_y)\<close> is computed from the stored
  heading \<^verbatim>\<open>(self._dx, self._dy)\<close>; the arguments \<open>dx\<close> and \<open>dy\<close> are read only by
  the final \<^verbatim>\<open>Actor.move\<close>.
\<close>

definition Monster_move :: "stage \<Rightarrow> aid \<Rightarrow> aid \<Rightarrow> int \<Rightarrow> int \<Rightarrow> error + (bool \<times> stage)" where
  "Monster_move st self other dx dy =
     (if other \<noteq> self then Inr (False, st)
      else
        let me = s_heap st self;
            new_x = a_x me + a_dx me;
            new_y = a_y me + a_dy me;
            actor = get_actor st new_x new_y;
            (me1, bounce1) = (if \<not> is_in_bounds_x st new_x
                              then (me\<lparr>a_dx := - a_dx me\<rparr>, True) else (me, False));
            (me2, bounce_off_edge) = (if \<not> is_in_bounds_y st new_y
                              then (me1\<lparr>a_dy := - a_dy me1\<rparr>, True) else (me1, bounce1));
            st2 = st\<lparr>s_heap := (s_heap st)(self := me2)\<rparr>
        in
          if actor \<noteq> None \<and> \<not> actor_isinstance st2 actor KeyboardPlayer
          then Inr (True, st2\<lparr>s_heap := (s_heap st2)(self := me2\<lparr>a_dx := - a_dx me2, a_dy := - a_dy me2\<rparr>)\<rparr>)
          else if actor \<noteq> None \<and> actor_isinstance st2 actor KeyboardPlayer
          then (let st3 = st2\<lparr>s_heap := (s_heap st2)(self := me2\<lparr>a_dx := - a_dx me2, a_dy := - a_dy me2\<rparr>)\<rparr>;
                    pl = the actor
                in Inr (True, st3\<lparr>s_heap := (s_heap st3)(pl := (s_heap st3 pl)\<lparr>a_dead := True\<rparr>)\<rparr>))
          else if bounce_off_edge then Inr (False, st2)
          else Actor_move st2 self other dx dy)"

text \<open>
  \<^verbatim>\<open>random.choice([-1, 0, 1])\<close>: the next draw of the random sequence selects one of
  the three elements.
\<close>

definition random_choice :: "stage \<Rightarrow> int \<times> stage" where
  "random_choice st =
     ([-1, 0, 1] ! (s_random st (s_drawn st) mod 3), st\<lparr>s_drawn := Suc (s_drawn st)\<rparr>)"

text \<open>
  \<^verbatim>\<open>FreeMonster.move\<close> (inherited by \<^verbatim>\<open>BoxMonster\<close> and \<^verbatim>\<open>Boss\<close>) and
  \<^verbatim>\<open>Ripper.move\<close>, which has the same body. The result of \<^verbatim>\<open>self.step()\<close> is
  dropped.
\<close>

definition FreeMonster_move ::
  "(stage \<Rightarrow> aid \<Rightarrow> error + (bool option \<times> stage)) \<Rightarrow>
   stage \<Rightarrow> aid \<Rightarrow> aid \<Rightarrow> int \<Rightarrow> int \<Rightarrow> error + (bool \<times> stage)" where
  "FreeMonster_move stp st self other dx dy =
     (if other \<noteq> self then Inr (False, st)
      else
        let new_x = a_x (s_heap st self) + dx;
            new_y = a_y (s_heap st self) + dy;
            actor = get_actor st new_x new_y
        in
          if \<not> is_in_bounds st new_x new_y
          then (case stp st self of Inl e \<Rightarrow> Inl e | Inr (r, st1) \<Rightarrow> Inr (True, st1))
          else if actor \<noteq> None \<and> \<not> actor_isinstance st actor KeyboardPlayer
          then (case stp st self of Inl e \<Rightarrow> Inl e | Inr (r, st1) \<Rightarrow> Inr (True, st1))
          else if actor \<noteq> None \<and> actor_isinstance st actor KeyboardPlayer
          then (let pl = the actor
                in Inr (True, st\<lparr>s_heap := (s_heap st)(pl := (s_heap st pl)\<lparr>a_dead := True\<rparr>)\<rparr>))
          else Actor_move st self other dx dy)"

definition Ripper_move ::
  "(stage \<Rightarrow> aid \<Rightarrow> error + (bool option \<times> stage)) \<Rightarrow>
   stage \<Rightarrow> aid \<Rightarrow> aid \<Rightarrow> int \<Rightarrow> int \<Rightarrow> error + (bool \<times> stage)" where
  "Ripper_move stp st self other dx dy =
     (if other \<noteq> self then Inr (False, st)
      else
        let new_x = a_x (s_heap st self) + dx;
            new_y = a_y (s_heap st self) + dy;
            actor = get_actor st new_x new_y
        in
          if \<not> is_in_bounds st new_x new_y
          then (case stp st self of Inl e \<Rightarrow> Inl e | Inr (r, st1) \<Rightarrow> Inr (True, st1))
          else if actor \<noteq> None \<and> \<not> actor_isinstance st actor KeyboardPlayer
          then (case stp st self of Inl e \<Rightarrow> Inl e | Inr (r, st1) \<Rightarrow> Inr (True, st1))
          else if actor \<noteq> None \<and> actor_isinstance st actor KeyboardPlayer
          then (let pl = the actor
                in Inr (True, st\<lparr>s_heap := (s_heap st)(pl := (s_heap st pl)\<lparr>a_dead := True\<rparr>)\<rparr>))
          else Actor_move st self other dx dy)"

section \<open>Throttle, death and immobilization of a Monster\<close>

text \<open>
  \<^verbatim>\<open>Actor.delay\<close>: \<^verbatim>\<open>self._delay_count = (self._delay_count+1) % self._delay\<close>, then
  \<^verbatim>\<open>return self._delay_count == 0\<close>. Python's \<^verbatim>\<open>%\<close> on integers takes the sign of
  the divisor, as \<open>mod\<close> on \<open>int\<close> does, and raises when the divisor is zero.
\<close>

definition delay :: "stage \<Rightarrow> aid \<Rightarrow> error + (bool \<times> stage)" where
  "delay st self =
     (let me = s_heap st self in
      if a_delay me = 0 then Inl ZeroDivisionError
      else
        let c = (a_delay_count me + 1) mod a_delay me
        in Inr (c = 0, st\<lparr>s_heap := (s_heap st)(self := me\<lparr>a_delay_count := c\<rparr>)\<rparr>))"

definition moves8 :: "(int \<times> int) list" where
  "moves8 = [(1,0), (-1,0), (0,1), (0,-1), (1,1), (-1,1), (1,-1), (-1,-1)]"

definition moves4 :: "(int \<times> int) list" where
  "moves4 = [(1,0), (-1,0), (0,1), (0,-1)]"

definition surrounding_pos :: "stage \<Rightarrow> aid \<Rightarrow> (int \<times> int) list \<Rightarrow> (int \<times> int) list" where
  "surrounding_pos st self moves =
     map (\<lambda>(x, y). (fst (get_position st self) + x, snd (get_position st self) + y)) moves"

text \<open>The loop of \<^verbatim>\<open>Monster.is_dead\<close> over the surrounding positions.\<close>

fun is_dead_loop :: "stage \<Rightarrow> (int \<times> int) list \<Rightarrow> bool" where
  "is_dead_loop st [] = True"
| "is_dead_loop st (position # rest) =
     (if (get_actor st (fst position) (snd position) = None
          \<or> actor_isinstance st (get_actor st (fst position) (snd position)) KeyboardPlayer)
         \<and> is_in_bounds st (fst position) (snd position)
      then False
      else is_dead_loop st rest)"

definition is_dead :: "stage \<Rightarrow> aid \<Rightarrow> bool" where
  "is_dead st self = is_dead_loop st (surrounding_pos st self moves8)"

text \<open>The loop of \<^verbatim>\<open>Monster.is_stuck\<close> over the four cardinal positions.\<close>

fun is_stuck_loop :: "stage \<Rightarrow> aid \<Rightarrow> (int \<times> int) list \<Rightarrow> bool" where
  "is_stuck_loop st self [] = False"
| "is_stuck_loop st self (position # rest) =
     (if actor_isinstance st (get_actor st (fst position) (snd position)) StickyBox
         \<and> \<not> isinstance (cls_of st self) Boss
      then True
      else is_stuck_loop st self rest)"

definition is_stuck :: "stage \<Rightarrow> aid \<Rightarrow> bool" where
  "is_stuck st self = is_stuck_loop st self (surrounding_pos st self moves4)"

section \<open>The step methods of the Monster classes\<close>

text \<open>
  \<^verbatim>\<open>Monster.step\<close>. It returns \<^verbatim>\<open>None\<close> when delayed and \<^verbatim>\<open>True\<close> otherwise; the
  calls \<^verbatim>\<open>time.sleep\<close> and \<^verbatim>\<open>monster_died\<close> only draw on the screen. \<open>mv\<close> is
  \<^verbatim>\<open>self.move\<close>, whose result is dropped.
\<close>

definition Monster_step ::
  "(stage \<Rightarrow> aid \<Rightarrow> aid \<Rightarrow> int \<Rightarrow> int \<Rightarrow> error + (bool \<times> stage)) \<Rightarrow>
   stage \<Rightarrow> aid \<Rightarrow> error + (bool option \<times> stage)" where
  "Monster_step mv st self =
     (if \<not> is_dead st self \<and> \<not> is_stuck st self then
        (case delay st self of
           Inl e \<Rightarrow> Inl e
         | Inr (go, st1) \<Rightarrow>
             if \<not> go then Inr (None, st1)
             else (case mv st1 self self (a_dx (s_heap st1 self)) (a_dy (s_heap st1 self)) of
                     Inl e \<Rightarrow> Inl e
                   | Inr (r, st2) \<Rightarrow> Inr (Some True, st2)))
      else if is_stuck st self \<and> \<not> is_dead st self then Inr (Some True, st)
      else (case remove_actor st self of
              Inl e \<Rightarrow> Inl e
            | Inr st1 \<Rightarrow> Inr (Some True, st1)))"

text \<open>
  \<^verbatim>\<open>FreeMonster.step\<close>: the direction is drawn with two calls of
  \<^verbatim>\<open>random.choice\<close>, \<open>dx\<close> first; the death branch returns \<^verbatim>\<open>None\<close>.
\<close>

definition FreeMonster_step ::
  "(stage \<Rightarrow> aid \<Rightarrow> aid \<Rightarrow> int \<Rightarrow> int \<Rightarrow> error + (bool \<times> stage)) \<Rightarrow>
   stage \<Rightarrow> aid \<Rightarrow> error + (bool option \<times> stage)" where
  "FreeMonster_step mv st self =
     (if \<not> is_dead st self \<and> \<not> is_stuck st self then
        (case delay st self of
           Inl e \<Rightarrow> Inl e
         | Inr (go, st1) \<Rightarrow>
             if \<not> go then Inr (None, st1)
             else
               let (dx, st2) = random_choice st1;
                   (dy, st3) = random_choice st2
               in (case mv st3 self self dx dy of
                     Inl e \<Rightarrow> Inl e
                   | Inr (r, st4) \<Rightarrow> Inr (Some True, st4)))
      else if is_stuck st self \<and> \<not> is_dead st self then Inr (Some True, st)
      else (case remove_actor st self of
              Inl e \<Rightarrow> Inl e
            | Inr st1 \<Rightarrow> Inr (None, st1)))"

text \<open>
  The loop at the end of \<^verbatim>\<open>Ripper.step\<close>,
  \<^verbatim>\<open>for actor in self._stage._actors: if isinstance(actor, StickyBox): self._stage.remove_actor(actor)\<close>.
  A Python \<^verbatim>\<open>for\<close> over a list reads the list by an index that grows by one in each
  round, and stops when the index reaches the current length; the body removes from
  the list that is being read. \<open>i\<close> is that index.
\<close>

function remove_sticky_loop :: "stage \<Rightarrow> nat \<Rightarrow> error + stage" where
  "remove_sticky_loop st i =
     (if i < length (s_actors st) then
        (let actor = s_actors st ! i in
         if isinstance (cls_of st actor) StickyBox
         then (case remove_actor st actor of
                 Inl e \<Rightarrow> Inl e
               | Inr st1 \<Rightarrow> remove_sticky_loop st1 (i + 1))
         else remove_sticky_loop st (i + 1))
      else Inr st)"
  by pat_completeness auto
termination
proof (relation "measure (\<lambda>(st, i). length (s_actors st) - i)")
  show "wf (measure (\<lambda>(st, i). length (s_actors st) - i))" by simp
next
  fix st :: stage and i :: nat and x :: aid and st1 :: stage
  assume "i < length (s_actors st)" and "x = s_actors st ! i"
    and "remove_actor st x = Inr st1"
  then have "length (s_actors st1) \<le> length (s_actors st)"
    by (auto simp: remove_actor_def list_remove_def length_remove1
             split: if_splits sum.splits)
  with \<open>i < length (s_actors st)\<close>
  show "((st1, i + 1), (st, i)) \<in> measure (\<lambda>(st, i). length (s_actors st) - i)"
    by simp
next
  fix st :: stage and i :: nat and x :: aid
  assume "i < length (s_actors st)"
  then show "((st, i + 1), (st, i)) \<in> measure (\<lambda>(st, i). length (s_actors st) - i)"
    by simp
qed

definition Ripper_step ::
  "(stage \<Rightarrow> aid \<Rightarrow> aid \<Rightarrow> int \<Rightarrow> int \<Rightarrow> error + (bool \<times> stage)) \<Rightarrow>
   stage \<Rightarrow> aid \<Rightarrow> error + (bool option \<times> stage)" where
  "Ripper_step mv st self =
     (if \<not> is_dead st self \<and> \<not> is_stuck st self then
        (case delay st self of
           Inl e \<Rightarrow> Inl e
         | Inr (go, st1) \<Rightarrow>
             if \<not> go then Inr (None, st1)
             else
               let (dx, st2) = random_choice st1;
                   (dy, st3) = random_choice st2
               in (case mv st3 self self dx dy of
                     Inl e \<Rightarrow> Inl e
                   | Inr (r, st4) \<Rightarrow> Inr (Some True, st4)))
      else if is_stuck st self \<and> \<not> is_dead st self then Inr (Some True, st)
      else (case remove_actor st self of
              Inl e \<Rightarrow> Inl e
            | Inr st1 \<Rightarrow>
                (case remove_sticky_loop st1 0 of
                   Inl e \<Rightarrow> Inl e
                 | Inr st2 \<Rightarrow> Inr (None, st2))))"

section \<open>Dynamic dispatch of move\<close>

text \<open>
  \<^verbatim>\<open>obj.move(other, dx, dy)\<close> runs the method of the class of \<open>obj\<close>. The methods
  call each other (a push is handed down a line of boxes, a blocked FreeMonster takes
  another step), to a depth that the source does not bound: a push by \<open>(0, 0)\<close> has a
  box ask itself to move, for ever. The first argument bounds the depth of nested
  \<^verbatim>\<open>move\<close> calls; when it is used up the result is \<open>Inl RecursionError\<close>, which is
  what Python raises when its recursion limit is reached.
\<close>

fun move :: "nat \<Rightarrow> stage \<Rightarrow> aid \<Rightarrow> aid \<Rightarrow> int \<Rightarrow> int \<Rightarrow> error + (bool \<times> stage)" where
  "move 0 st self other dx dy = Inl RecursionError"
| "move (Suc n) st self other dx dy =
     (case cls_of st self of
        Actor \<Rightarrow> Actor_move st self other dx dy
      | Player \<Rightarrow> Actor_move st self other dx dy
      | Wall \<Rightarrow> Actor_move st self other dx dy
      | KeyboardPlayer \<Rightarrow> KeyboardPlayer_move (move n) st self other dx dy
      | Box \<Rightarrow> Box_move (move n) st self other dx dy
      | StickyBox \<Rightarrow> Box_move (move n) st self other dx dy
      | Monster \<Rightarrow> Monster_move st self other dx dy
      | FreeMonster \<Rightarrow> FreeMonster_move (FreeMonster_step (move n)) st self other dx dy
      | BoxMonster \<Rightarrow> FreeMonster_move (FreeMonster_step (move n)) st self other dx dy
      | Boss \<Rightarrow> FreeMonster_move (FreeMonster_step (move n)) st self other dx dy
      | Ripper \<Rightarrow> Ripper_move (Ripper_step (move n)) st self other dx dy)"

section \<open>Construction and setup\<close>

text \<open>
  \<^verbatim>\<open>Stage.__init__(width, height, icon_dimension)\<close>; the pixel sizes are left out. The
  store of a new stage holds no object yet, so its content is never read.
\<close>

definition Stage_init :: "int \<Rightarrow> int \<Rightarrow> (nat \<Rightarrow> nat) \<Rightarrow> stage" where
  "Stage_init width height rnd =
     \<lparr>s_heap = (\<lambda>a. \<lparr>a_class = Actor, a_x = 0, a_y = 0, a_delay = 5, a_delay_count = 0,
                       a_dx = 0, a_dy = 0, a_dead = False\<rparr>),
      s_actors = [], s_monsters = [], s_player = None,
      s_width = width, s_height = height,
      s_random = rnd, s_drawn = 0, s_fresh = 0\<rparr>"

text \<open>
  The constructors: \<^verbatim>\<open>Actor.__init__\<close> sets the position, \<^verbatim>\<open>_delay\<close> and
  \<^verbatim>\<open>_delay_count = 0\<close>; \<^verbatim>\<open>Monster.__init__\<close> adds \<^verbatim>\<open>_dx = _dy = 1\<close>;
  \<^verbatim>\<open>KeyboardPlayer.__init__\<close> adds \<^verbatim>\<open>dead = False\<close>. The new object gets the next
  unused address.
\<close>

definition construct :: "stage \<Rightarrow> cls \<Rightarrow> int \<Rightarrow> int \<Rightarrow> int \<Rightarrow> aid \<times> stage" where
  "construct st k x y dl =
     (let a = s_fresh st;
          obj = \<lparr>a_class = k, a_x = x, a_y = y, a_delay = dl, a_delay_count = 0,
                 a_dx = (if isinstance k Monster then 1 else 0),
                 a_dy = (if isinstance k Monster then 1 else 0),
                 a_dead = False\<rparr>
      in (a, st\<lparr>s_heap := (s_heap st)(a := obj), s_fresh := Suc a\<rparr>))"

text \<open>\<^verbatim>\<open>ww.add_actor(K(icon, ww, x, y, delay))\<close>, as \<^verbatim>\<open>setup\<close> writes it.\<close>

definition put :: "stage \<Rightarrow> cls \<Rightarrow> int \<Rightarrow> int \<Rightarrow> int \<Rightarrow> stage" where
  "put st k x y dl = (let (a, st1) = construct st k x y dl in add_actor st1 a)"

definition set_player :: "stage \<Rightarrow> aid \<Rightarrow> stage" where
  "set_player st player = add_actor (st\<lparr>s_player := Some player\<rparr>) player"

text \<open>
  \<^verbatim>\<open>random.randrange(stop)\<close> and \<^verbatim>\<open>random.randint(a, b)\<close>: the next draw, reduced
  to the range; an empty range raises \<^verbatim>\<open>ValueError\<close>.
\<close>

definition randrange :: "stage \<Rightarrow> int \<Rightarrow> error + (int \<times> stage)" where
  "randrange st stop =
     (if stop \<le> 0 then Inl ValueError
      else Inr (int (s_random st (s_drawn st)) mod stop, st\<lparr>s_drawn := Suc (s_drawn st)\<rparr>))"

definition randint :: "stage \<Rightarrow> int \<Rightarrow> int \<Rightarrow> error + (int \<times> stage)" where
  "randint st a b =
     (if b < a then Inl ValueError
      else Inr (a + int (s_random st (s_drawn st)) mod (b - a + 1),
                st\<lparr>s_drawn := Suc (s_drawn st)\<rparr>))"

text \<open>
  The pattern \<^verbatim>\<open>setup\<close> repeats for every class it places at random:
  \<^verbatim>\<open>x = random.randrange(ww.get_width()); y = random.randrange(ww.get_height());
  if ww.get_actor(x, y) is None: ww.add_actor(K(icon, ww, x, y, delay))\<close>.
  The boolean tells whether an actor was added.
\<close>

definition place_random :: "stage \<Rightarrow> cls \<Rightarrow> int \<Rightarrow> error + (bool \<times> stage)" where
  "place_random st k dl =
     (case randrange st (s_width st) of
        Inl e \<Rightarrow> Inl e
      | Inr (x, st1) \<Rightarrow>
          (case randrange st1 (s_height st1) of
             Inl e \<Rightarrow> Inl e
           | Inr (y, st2) \<Rightarrow>
               if get_actor st2 x y = None then Inr (True, put st2 k x y dl)
               else Inr (False, st2)))"

text \<open>\<^verbatim>\<open>for ... in range(n)\<close> around the pattern.\<close>

fun place_times :: "nat \<Rightarrow> stage \<Rightarrow> cls \<Rightarrow> int \<Rightarrow> error + stage" where
  "place_times 0 st k dl = Inr st"
| "place_times (Suc n) st k dl =
     (case place_random st k dl of
        Inl e \<Rightarrow> Inl e
      | Inr (added, st1) \<Rightarrow> place_times n st1 k dl)"

text \<open>
  \<^verbatim>\<open>while num_boxes<100\<close>: the loop ends only when a hundred boxes have found a free
  cell, so it need not end; not returning is the value \<open>None\<close>.
\<close>

partial_function (option) place_boxes :: "int \<Rightarrow> stage \<Rightarrow> (error + stage) option" where
  "place_boxes num_boxes st =
     (if num_boxes < 100 then
        (case place_random st Box 5 of
           Inl e \<Rightarrow> Some (Inl e)
         | Inr (added, st1) \<Rightarrow> place_boxes (if added then num_boxes + 1 else num_boxes) st1)
      else Some (Inr st))"

text \<open>The first four statements of \<^verbatim>\<open>setup\<close>, which draw nothing at random.\<close>

definition setup_fixed :: "stage \<Rightarrow> stage" where
  "setup_fixed ww =
     (let (player, ww1) = construct ww KeyboardPlayer 0 0 5;
          ww2 = set_player ww1 player;
          ww3 = put ww2 Monster 7 4 5;
          ww4 = put ww3 Monster 4 10 3
      in put ww4 Monster 5 20 2)"

text \<open>The rest of \<^verbatim>\<open>setup\<close>: the random placements, in the order of the source.\<close>

definition setup_random :: "stage \<Rightarrow> (error + stage) option" where
  "setup_random ww =
     (case randint ww 1 2 of
        Inl e \<Rightarrow> Some (Inl e)
      | Inr (n1, ww1) \<Rightarrow>
     (case place_times (nat n1) ww1 FreeMonster 5 of
        Inl e \<Rightarrow> Some (Inl e)
      | Inr ww2 \<Rightarrow>
     (case randint ww2 1 2 of
        Inl e \<Rightarrow> Some (Inl e)
      | Inr (n2, ww3) \<Rightarrow>
     (case place_times (nat n2) ww3 BoxMonster 5 of
        Inl e \<Rightarrow> Some (Inl e)
      | Inr ww4 \<Rightarrow>
     (case place_random ww4 Boss 2 of
        Inl e \<Rightarrow> Some (Inl e)
      | Inr (added, ww5) \<Rightarrow>
     (case place_times 3 ww5 Ripper 8 of
        Inl e \<Rightarrow> Some (Inl e)
      | Inr ww6 \<Rightarrow>
     (case place_times 25 ww6 Wall 5 of
        Inl e \<Rightarrow> Some (Inl e)
      | Inr ww7 \<Rightarrow>
     (case place_times 5 ww7 StickyBox 5 of
        Inl e \<Rightarrow> Some (Inl e)
      | Inr ww8 \<Rightarrow> place_boxes 0 ww8))))))))"

text \<open>\<^verbatim>\<open>setup\<close> as a whole (the name \<open>setup\<close> is reserved in Isabelle).\<close>

definition setup_stage :: "stage \<Rightarrow> (error + stage) option" where
  "setup_stage ww = setup_random (setup_fixed ww)"

section \<open>Example stages\<close>

text \<open>
  Small stages, built with the constructors above, on which the theorems below are
  instantiated. Addresses are given out in the order of construction, from 0.
\<close>

text \<open>The Agent at \<open>(0, 0)\<close> next to a Monster at \<open>(1, 0)\<close>.\<close>

definition duel_stage :: stage where
  "duel_stage = put (put (Stage_init 3 3 (\<lambda>i. 0)) KeyboardPlayer 0 0 5) Monster 1 0 5"

text \<open>
  A Ripper in the corner of a 2 x 2 stage, walled in by two StickyBoxes and a Box; the two
  StickyBoxes are neighbours in \<^verbatim>\<open>_actors\<close>.
\<close>

definition pen_stage :: stage where
  "pen_stage =
     put (put (put (put (Stage_init 2 2 (\<lambda>i. 0)) Ripper 0 0 8) StickyBox 1 0 5) StickyBox 0 1 5) Box 1 1 5"

text \<open>A Monster on the right edge of the 20 x 20 stage, heading \<open>(1, 1)\<close>.\<close>

definition edge_stage :: stage where
  "edge_stage = put (Stage_init 20 20 (\<lambda>i. 0)) Monster 19 5 5"

definition edge_bounced :: stage where
  "edge_bounced =
     edge_stage\<lparr>s_heap := (s_heap edge_stage)(0 := (s_heap edge_stage 0)\<lparr>a_dx := - 1\<rparr>)\<rparr>"


text \<open>A Monster in the corner of a 2 x 2 stage, walled in by three Boxes.\<close>

definition cornered_stage :: stage where
  "cornered_stage =
     put (put (put (put (Stage_init 2 2 (\<lambda>i. 0)) Monster 0 0 5) Box 1 0 5) Box 0 1 5) Box 1 1 5"


text \<open>As \<open>pen_stage\<close>, but a Box stands between the two StickyBoxes in \<^verbatim>\<open>_actors\<close>.\<close>

definition spaced_stage :: stage where
  "spaced_stage =
     put (put (put (put (Stage_init 2 2 (\<lambda>i. 0)) Ripper 0 0 8) StickyBox 1 0 5) Box 1 1 5) StickyBox 0 1 5"

text \<open>A Wall at \<open>(0, 0)\<close> with a Box on its right.\<close>

definition wall_stage :: stage where
  "wall_stage = put (put (Stage_init 3 3 (\<lambda>i. 0)) Wall 0 0 5) Box 1 0 5"

text \<open>The Agent at \<open>(0, 0)\<close> of a 4 x 1 stage, a Box and a StickyBox in front of it, then a free cell.\<close>

definition push_stage :: stage where
  "push_stage =
     put (put (put (Stage_init 4 1 (\<lambda>i. 0)) KeyboardPlayer 0 0 5) Box 1 0 5) StickyBox 2 0 5"

text \<open>As \<open>push_stage\<close>, on a 3 x 1 stage: the StickyBox stands at the right edge.\<close>

definition jam_stage :: stage where
  "jam_stage =
     put (put (put (Stage_init 3 1 (\<lambda>i. 0)) KeyboardPlayer 0 0 5) Box 1 0 5) StickyBox 2 0 5"

text \<open>
  The stage after the first four statements of \<^verbatim>\<open>setup\<close>, whose third Monster stands
  at \<open>(5, 20)\<close>, just past the last row of the grid, with the Agent brought to \<open>(5, 19)\<close>,
  next to it.
\<close>

definition stray_stage :: stage where
  "stray_stage = set_position (setup_fixed (Stage_init 20 20 (\<lambda>i. 0))) 0 5 19"

text \<open>
  A Monster in the middle of a 3 x 3 stage with a Box on each of the given cells;
  \<open>ring_cells\<close> are the eight cells around the middle.
\<close>

definition ring_cells :: "(int \<times> int) list" where
  "ring_cells = [(2,1), (0,1), (1,2), (1,0), (2,2), (0,2), (2,0), (0,0)]"

definition ring_stage :: "(int \<times> int) list \<Rightarrow> stage" where
  "ring_stage cells =
     fold (\<lambda>(x, y) st. put st Box x y 5) cells (put (Stage_init 3 3 (\<lambda>i. 0)) Monster 1 1 5)"

section \<open>Descriptions used in the statements\<close>

text \<open>
  What one pass of a Python \<^verbatim>\<open>for\<close> loop leaves of a list when its body removes the
  current element whenever \<open>P\<close> holds of it: after a removal the next element slides
  into the current index and the loop steps over it.
\<close>

fun scan_remove :: "('a \<Rightarrow> bool) \<Rightarrow> 'a list \<Rightarrow> 'a list" where
  "scan_remove P [] = []"
| "scan_remove P [a] = (if P a then [] else [a])"
| "scan_remove P (a # b # bs) = (if P a then b # scan_remove P bs else a # scan_remove P (b # bs))"

text \<open>Two neighbours in the list both satisfy \<open>P\<close>.\<close>

fun adjacent_pair :: "('a \<Rightarrow> bool) \<Rightarrow> 'a list \<Rightarrow> bool" where
  "adjacent_pair P (a # b # bs) = ((P a \<and> P b) \<or> adjacent_pair P (b # bs))"
| "adjacent_pair P bs = False"

text \<open>At most one actor of \<^verbatim>\<open>_actors\<close> at any position.\<close>

definition single_occupancy :: "stage \<Rightarrow> bool" where
  "single_occupancy st =
     (\<forall>a\<in>set (s_actors st). \<forall>b\<in>set (s_actors st).
        get_position st a = get_position st b \<longrightarrow> a = b)"

text \<open>\<^verbatim>\<open>get_actor\<close> finds every actor of \<^verbatim>\<open>_actors\<close> at its own recorded position.\<close>

definition grid_consistent :: "stage \<Rightarrow> bool" where
  "grid_consistent st =
     (\<forall>a\<in>set (s_actors st).
        get_actor st (fst (get_position st a)) (snd (get_position st a)) = Some a)"

text \<open>
  No actor on the stage is an object of the base classes \<^verbatim>\<open>Actor\<close> or
  \<^verbatim>\<open>Player\<close> themselves, which the game never constructs.
\<close>

definition concrete_kinds :: "stage \<Rightarrow> bool" where
  "concrete_kinds st = (\<forall>a\<in>set (s_actors st). cls_of st a \<noteq> Actor \<and> cls_of st a \<noteq> Player)"

text \<open>
  The actors \<open>bs\<close> are a straight line of boxes: the first is what \<^verbatim>\<open>get_actor\<close>
  finds at \<open>(x, y)\<close>, the next at \<open>(x + dx, y + dy)\<close>, and so on; every one is an
  instance of \<^verbatim>\<open>Box\<close> and stands on a cell of the grid.
\<close>

fun chain_at :: "stage \<Rightarrow> aid list \<Rightarrow> int \<Rightarrow> int \<Rightarrow> int \<Rightarrow> int \<Rightarrow> bool" where
  "chain_at st [] x y dx dy = True"
| "chain_at st (b # bs) x y dx dy =
     (is_in_bounds st x y \<and> get_actor st x y = Some b \<and> isinstance (cls_of st b) Box
      \<and> chain_at st bs (x + dx) (y + dy) dx dy)"

text \<open>The stage in which each of the actors \<open>as\<close> stands \<open>(dx, dy)\<close> further, all else the same.\<close>

definition shifted :: "stage \<Rightarrow> aid list \<Rightarrow> int \<Rightarrow> int \<Rightarrow> stage" where
  "shifted st as dx dy =
     st\<lparr>s_heap := (\<lambda>a. if a \<in> set as
                         then (s_heap st a)\<lparr>a_x := a_x (s_heap st a) + dx,
                                             a_y := a_y (s_heap st a) + dy\<rparr>
                         else s_heap st a)\<rparr>"

section \<open>Notions used in the proofs\<close>

text \<open>The invariant carried through a move.\<close>

definition well_placed :: "stage \<Rightarrow> bool" where
  "well_placed st = (single_occupancy st \<and> concrete_kinds st)"

text \<open>
  \<open>st'\<close> has the positions and classes of \<open>st\<close>, and \<^verbatim>\<open>_actors\<close> has at most
  lost elements.
\<close>

definition same_grid :: "stage \<Rightarrow> stage \<Rightarrow> bool" where
  "same_grid st st' =
     (set (s_actors st') \<subseteq> set (s_actors st) \<and> get_position st' = get_position st
      \<and> cls_of st' = cls_of st)"

text \<open>The actor \<open>b\<close> is not where it was.\<close>

definition moved :: "stage \<Rightarrow> stage \<Rightarrow> aid \<Rightarrow> bool" where
  "moved st st' b = (get_position st' b \<noteq> get_position st b)"

text \<open>The classes whose \<^verbatim>\<open>move\<close> asks the occupant of the target cell to move.\<close>

definition pusher :: "cls \<Rightarrow> bool" where
  "pusher k = (k = KeyboardPlayer \<or> k = Box \<or> k = StickyBox)"

text \<open>How far the actor \<open>b\<close> lies in the direction \<open>(dx, dy)\<close>.\<close>

definition dot :: "stage \<Rightarrow> int \<Rightarrow> int \<Rightarrow> aid \<Rightarrow> int" where
  "dot st dx dy b = dx * a_x (s_heap st b) + dy * a_y (s_heap st b)"

text \<open>
  \<open>b\<close> is the receiver \<open>a\<close> of a move itself or, when \<open>a\<close> can push, lies at least
  one step ahead of it in the direction of the move.
\<close>

definition ahead_of :: "stage \<Rightarrow> aid \<Rightarrow> int \<Rightarrow> int \<Rightarrow> aid \<Rightarrow> bool" where
  "ahead_of st a dx dy b =
     (b = a \<or> (pusher (cls_of st a) \<and> dot st dx dy a + dx * dx + dy * dy \<le> dot st dx dy b))"

text \<open>A move method relocates only actors that are ahead of its receiver.\<close>

definition ahead ::
  "(stage \<Rightarrow> aid \<Rightarrow> aid \<Rightarrow> int \<Rightarrow> int \<Rightarrow> error + (bool \<times> stage)) \<Rightarrow> bool" where
  "ahead mv =
     (\<forall>st a other dx dy r st' b.
        mv st a other dx dy = Inr (r, st') \<longrightarrow> moved st st' b \<longrightarrow> ahead_of st a dx dy b)"

text \<open>
  The calls of \<^verbatim>\<open>move\<close> that the theorem on the invariant covers: the receiver is
  not a Wall (nor of a base class), and a Monster moving itself is called with its
  stored heading, as \<^verbatim>\<open>Monster.step\<close> calls it.
\<close>

definition guarded :: "stage \<Rightarrow> aid \<Rightarrow> aid \<Rightarrow> int \<Rightarrow> int \<Rightarrow> bool" where
  "guarded st self other dx dy =
     (cls_of st self \<noteq> Actor \<and> cls_of st self \<noteq> Player \<and> cls_of st self \<noteq> Wall
      \<and> (cls_of st self = Monster \<and> other = self \<longrightarrow>
           dx = a_dx (s_heap st self) \<and> dy = a_dy (s_heap st self)))"

text \<open>A move method keeps the invariant on the calls that are \<open>guarded\<close>.\<close>

definition keeps ::
  "(stage \<Rightarrow> aid \<Rightarrow> aid \<Rightarrow> int \<Rightarrow> int \<Rightarrow> error + (bool \<times> stage)) \<Rightarrow> bool" where
  "keeps mv =
     (\<forall>st a other dx dy r st'.
        mv st a other dx dy = Inr (r, st') \<longrightarrow> well_placed st \<longrightarrow> guarded st a other dx dy
        \<longrightarrow> well_placed st')"

text \<open>The third Monster of \<^verbatim>\<open>setup\<close>, at address 3, stands at \<open>(5, 20)\<close> on a stage of height 20.\<close>

definition stray :: "stage \<Rightarrow> bool" where
  "stray st = (3 \<in> set (s_actors st) \<and> cls_of st 3 = Monster \<and> get_position st 3 = (5, 20)
               \<and> 3 < s_fresh st \<and> s_height st = 20)"

section \<open>Basic facts\<close>

lemmas build_defs =
  Stage_init_def put_def construct_def add_actor_def set_player_def cls_of_def Let_def

lemmas grid_defs =
  get_actor_def get_position_def is_in_bounds_def is_in_bounds_x_def is_in_bounds_y_def
  actor_isinstance_def

lemma get_actor_SomeD:
  "get_actor st x y = Some a \<Longrightarrow> a \<in> set (s_actors st) \<and> get_position st a = (x, y)"
  by (auto simp: get_actor_def find_Some_iff)

lemma get_actor_None_iff:
  "get_actor st x y = None \<longleftrightarrow> (\<forall>a\<in>set (s_actors st). get_position st a \<noteq> (x, y))"
  by (auto simp: get_actor_def find_None_iff)

text \<open>The dispatch of \<open>move\<close>, class by class.\<close>

lemma move_KeyboardPlayer:
  "cls_of st a = KeyboardPlayer \<Longrightarrow>
   move (Suc n) st a other dx dy = KeyboardPlayer_move (move n) st a other dx dy"
  by simp

lemma move_Box:
  "isinstance (cls_of st a) Box \<Longrightarrow>
   move (Suc n) st a other dx dy = Box_move (move n) st a other dx dy"
  by auto

lemma move_Monster:
  "cls_of st a = Monster \<Longrightarrow> move (Suc n) st a other dx dy = Monster_move st a other dx dy"
  by simp

text \<open>No Monster class lets another actor push it: \<^verbatim>\<open>if other != self: return False\<close>.\<close>

lemma pushed_monster_refuses:
  assumes "isinstance (cls_of st h) Monster" and "other \<noteq> h"
  shows "move (Suc n) st h other dx dy = Inr (False, st)"
  using assms
  by (cases "cls_of st h") (simp_all add: Monster_move_def FreeMonster_move_def Ripper_move_def)

declare move.simps(2) [simp del]

section \<open>The Agent and a Hostile\<close>

text \<open>
  C3, as the claim states it, fails: on \<open>stray_stage\<close> the Agent at \<open>(5, 19)\<close> is asked
  to move down, into the position \<open>(5, 20)\<close> that the third Monster of \<^verbatim>\<open>setup\<close>
  holds. \<^verbatim>\<open>KeyboardPlayer.move\<close> tests \<^verbatim>\<open>is_in_bounds\<close> first, finds the target past
  the last row and returns \<^verbatim>\<open>False\<close>: the Agent is not killed and nothing changes.
\<close>

theorem agent_into_off_grid_hostile_counterexample:
  "cls_of stray_stage 0 = KeyboardPlayer \<and> get_position stray_stage 0 = (5, 19)
   \<and> get_actor stray_stage 5 20 = Some 3 \<and> cls_of stray_stage 3 = Monster
   \<and> \<not> a_dead (s_heap stray_stage 0)
   \<and> move 2 stray_stage 0 0 0 1 = Inr (False, stray_stage)"
  by (simp add: numeral_2_eq_2 move.simps(2) KeyboardPlayer_move_def stray_stage_def
        setup_fixed_def set_position_def build_defs grid_defs)

text \<open>
  C3, amended. When the Agent (a \<^verbatim>\<open>KeyboardPlayer\<close>) is asked to move into a position
  whose occupant is a Hostile (an instance of \<^verbatim>\<open>Monster\<close>): if the position is in
  bounds, the call returns \<^verbatim>\<open>True\<close> and the stage it leaves differs from the one it
  found only in the Agent's \<^verbatim>\<open>dead\<close> flag, which is set (the Hostile keeps its
  position and the Agent is not relocated); if the position is out of bounds, the call
  returns \<^verbatim>\<open>False\<close> and changes nothing. The call nests one \<^verbatim>\<open>move\<close> of the
  Hostile, so this holds for every depth budget of two or more.
\<close>

theorem agent_into_hostile_is_killed:
  assumes "cls_of st p = KeyboardPlayer"
    and "get_actor st (a_x (s_heap st p) + dx) (a_y (s_heap st p) + dy) = Some h"
    and "isinstance (cls_of st h) Monster"
  shows "move (Suc (Suc n)) st p other dx dy =
           (if is_in_bounds st (a_x (s_heap st p) + dx) (a_y (s_heap st p) + dy)
            then Inr (True, st\<lparr>s_heap := (s_heap st)(p := (s_heap st p)\<lparr>a_dead := True\<rparr>)\<rparr>)
            else Inr (False, st))"
proof -
  from assms(1,3) have ne: "p \<noteq> h" by auto
  from assms(3) have nw: "\<not> isinstance (cls_of st h) Wall" by auto
  have pm: "move (Suc n) st h p dx dy = Inr (False, st)"
    using pushed_monster_refuses [OF assms(3) ne] .
  show ?thesis
    using assms nw
    by (simp add: move_KeyboardPlayer KeyboardPlayer_move_def pm actor_isinstance_def
          del: isinstance.simps)
qed

theorem agent_into_hostile_is_killed_witness:
  "cls_of duel_stage 0 = KeyboardPlayer \<and> get_position duel_stage 0 = (0, 0)
   \<and> is_in_bounds duel_stage 1 0 \<and> get_actor duel_stage 1 0 = Some 1
   \<and> cls_of duel_stage 1 = Monster
   \<and> move 2 duel_stage 0 0 1 0 =
       Inr (True, duel_stage\<lparr>s_heap := (s_heap duel_stage)(0 := (s_heap duel_stage 0)\<lparr>a_dead := True\<rparr>)\<rparr>)
   \<and> get_position stray_stage 0 = (5, 19) \<and> \<not> is_in_bounds stray_stage 5 20
   \<and> get_actor stray_stage 5 20 = Some 3 \<and> cls_of stray_stage 3 = Monster
   \<and> move 2 stray_stage 0 0 0 1 = Inr (False, stray_stage)"
proof -
  have pos: "a_x (s_heap duel_stage 0) = 0" "a_y (s_heap duel_stage 0) = 0"
    by (simp_all add: duel_stage_def build_defs)
  have a: "cls_of duel_stage 0 = KeyboardPlayer"
    by (simp add: duel_stage_def build_defs)
  have b: "is_in_bounds duel_stage 1 0"
    by (simp add: duel_stage_def build_defs grid_defs)
  have c: "get_actor duel_stage (a_x (s_heap duel_stage 0) + 1) (a_y (s_heap duel_stage 0) + 0) = Some 1"
    by (simp add: duel_stage_def build_defs grid_defs)
  have d: "cls_of duel_stage 1 = Monster"
    by (simp add: duel_stage_def build_defs)
  then have d': "isinstance (cls_of duel_stage 1) Monster" by simp
  have spos: "a_x (s_heap stray_stage 0) = 5" "a_y (s_heap stray_stage 0) = 19"
    by (simp_all add: stray_stage_def setup_fixed_def set_position_def build_defs)
  have sa: "cls_of stray_stage 0 = KeyboardPlayer"
    by (simp add: stray_stage_def setup_fixed_def set_position_def build_defs)
  have sb: "\<not> is_in_bounds stray_stage 5 20"
    by (simp add: stray_stage_def setup_fixed_def set_position_def build_defs grid_defs)
  have sc: "get_actor stray_stage (a_x (s_heap stray_stage 0) + 0) (a_y (s_heap stray_stage 0) + 1) = Some 3"
    by (simp add: stray_stage_def setup_fixed_def set_position_def build_defs grid_defs)
  have sd: "cls_of stray_stage 3 = Monster"
    by (simp add: stray_stage_def setup_fixed_def set_position_def build_defs)
  then have sd': "isinstance (cls_of stray_stage 3) Monster" by simp
  from agent_into_hostile_is_killed [OF a c d', of 0 0] agent_into_hostile_is_killed [OF sa sc sd', of 0 0]
  show ?thesis
    using pos a b c d spos sa sb sc sd
    by (simp add: get_position_def numeral_2_eq_2)
qed

section \<open>Death by encirclement\<close>

lemma is_dead_loop_iff:
  "is_dead_loop st ps \<longleftrightarrow>
     (\<forall>p\<in>set ps. is_in_bounds st (fst p) (snd p) \<longrightarrow>
        (\<exists>a. get_actor st (fst p) (snd p) = Some a \<and> \<not> isinstance (cls_of st a) KeyboardPlayer))"
  by (induction ps) (auto simp: actor_isinstance_def)

lemmas ring_defs = ring_stage_def ring_cells_def build_defs grid_defs

lemma set_moves8:
  "set moves8 = {(- 1, - 1), (- 1, 0), (- 1, 1), (0, - 1), (0, 1), (1, - 1), (1, 0), (1, 1)}"
  by (auto simp: moves8_def)

text \<open>
  C5. \<^verbatim>\<open>is_dead\<close>, which all Monster classes inherit unchanged, returns \<^verbatim>\<open>True\<close>
  if and only if every one of the eight neighbouring positions (the four cardinal and
  the four diagonal ones, written out below as offsets) that is in bounds holds an actor
  that is not the Agent. A neighbour that is out of bounds never makes the result
  \<^verbatim>\<open>False\<close>; a neighbour in bounds that is empty or holds the Agent does. (In the
  instances that follow, the Monster in the middle of the 3 x 3 stage is dead with all
  eight Boxes around it, and alive when any one of them is missing or gives way to the
  Agent.)
\<close>

theorem is_dead_iff:
  "is_dead st self \<longleftrightarrow>
     (\<forall>(mx, my)\<in>{(- 1, - 1), (- 1, 0), (- 1, 1), (0, - 1), (0, 1), (1, - 1), (1, 0), (1, 1)}.
        is_in_bounds st (a_x (s_heap st self) + mx) (a_y (s_heap st self) + my) \<longrightarrow>
        (\<exists>a. get_actor st (a_x (s_heap st self) + mx) (a_y (s_heap st self) + my) = Some a
            \<and> \<not> isinstance (cls_of st a) KeyboardPlayer))"
  unfolding set_moves8 [symmetric]
  by (simp add: is_dead_def is_dead_loop_iff surrounding_pos_def get_position_def
      split_beta del: isinstance.simps)

theorem is_dead_iff_witness:
  "is_dead (ring_stage ring_cells) 0
   \<and> \<not> is_dead (ring_stage (remove1 (2, 1) ring_cells)) 0
   \<and> \<not> is_dead (ring_stage (remove1 (0, 1) ring_cells)) 0
   \<and> \<not> is_dead (ring_stage (remove1 (1, 2) ring_cells)) 0
   \<and> \<not> is_dead (ring_stage (remove1 (1, 0) ring_cells)) 0
   \<and> \<not> is_dead (ring_stage (remove1 (2, 2) ring_cells)) 0
   \<and> \<not> is_dead (ring_stage (remove1 (0, 2) ring_cells)) 0
   \<and> \<not> is_dead (ring_stage (remove1 (2, 0) ring_cells)) 0
   \<and> \<not> is_dead (ring_stage (remove1 (0, 0) ring_cells)) 0
   \<and> \<not> is_dead (put (ring_stage (remove1 (0, 0) ring_cells)) KeyboardPlayer 0 0 5) 0
   \<and> is_dead pen_stage 0 \<and> \<not> is_dead duel_stage 1"
proof -
  have "is_dead (ring_stage ring_cells) 0"
    using is_dead_iff [of "ring_stage ring_cells" 0] by (simp add: ring_defs)
  moreover have "\<not> is_dead (ring_stage (remove1 (2, 1) ring_cells)) 0"
    using is_dead_iff [of "ring_stage (remove1 (2, 1) ring_cells)" 0] by (simp add: ring_defs)
  moreover have "\<not> is_dead (ring_stage (remove1 (0, 1) ring_cells)) 0"
    using is_dead_iff [of "ring_stage (remove1 (0, 1) ring_cells)" 0] by (simp add: ring_defs)
  moreover have "\<not> is_dead (ring_stage (remove1 (1, 2) ring_cells)) 0"
    using is_dead_iff [of "ring_stage (remove1 (1, 2) ring_cells)" 0] by (simp add: ring_defs)
  moreover have "\<not> is_dead (ring_stage (remove1 (1, 0) ring_cells)) 0"
    using is_dead_iff [of "ring_stage (remove1 (1, 0) ring_cells)" 0] by (simp add: ring_defs)
  moreover have "\<not> is_dead (ring_stage (remove1 (2, 2) ring_cells)) 0"
    using is_dead_iff [of "ring_stage (remove1 (2, 2) ring_cells)" 0] by (simp add: ring_defs)
  moreover have "\<not> is_dead (ring_stage (remove1 (0, 2) ring_cells)) 0"
    using is_dead_iff [of "ring_stage (remove1 (0, 2) ring_cells)" 0] by (simp add: ring_defs)
  moreover have "\<not> is_dead (ring_stage (remove1 (2, 0) ring_cells)) 0"
    using is_dead_iff [of "ring_stage (remove1 (2, 0) ring_cells)" 0] by (simp add: ring_defs)
  moreover have "\<not> is_dead (ring_stage (remove1 (0, 0) ring_cells)) 0"
    using is_dead_iff [of "ring_stage (remove1 (0, 0) ring_cells)" 0] by (simp add: ring_defs)
  moreover have "\<not> is_dead (put (ring_stage (remove1 (0, 0) ring_cells)) KeyboardPlayer 0 0 5) 0"
    using is_dead_iff [of "put (ring_stage (remove1 (0, 0) ring_cells)) KeyboardPlayer 0 0 5" 0]
    by (simp add: ring_defs)
  moreover have "is_dead pen_stage 0"
    using is_dead_iff [of pen_stage 0] by (simp add: pen_stage_def build_defs grid_defs)
  moreover have "\<not> is_dead duel_stage 1"
    using is_dead_iff [of duel_stage 1] by (simp add: duel_stage_def build_defs grid_defs)
  ultimately show ?thesis by (intro conjI)
qed

section \<open>The Patrol hostile at the edge\<close>

text \<open>
  C6, as the claim states it, fails: on \<open>edge_stage\<close> the target \<open>(20, 6)\<close> of the
  Monster at \<open>(19, 5)\<close> is out of bounds on the x axis only and holds no actor; the call
  inverts \<^verbatim>\<open>_dx\<close>, returns \<^verbatim>\<open>False\<close> and leaves the Monster where it was.
\<close>

theorem patrol_one_axis_bounce_counterexample:
  "get_position edge_stage 0 = (19, 5)
   \<and> a_dx (s_heap edge_stage 0) = 1 \<and> a_dy (s_heap edge_stage 0) = 1
   \<and> \<not> is_in_bounds_x edge_stage 20 \<and> is_in_bounds_y edge_stage 6
   \<and> get_actor edge_stage 20 6 = None
   \<and> Monster_move edge_stage 0 0 1 1 = Inr (False, edge_bounced)
   \<and> get_position edge_bounced 0 = (19, 5)
   \<and> a_dx (s_heap edge_bounced 0) = - 1 \<and> a_dy (s_heap edge_bounced 0) = 1"
  by (simp add: Monster_move_def edge_bounced_def edge_stage_def build_defs grid_defs)

text \<open>
  C6, amended. When the target cell of a Patrol hostile's own move (its position plus
  its stored heading) is out of bounds and holds no actor, the call inverts the heading
  component of every axis on which the target is out of bounds, does not relocate the
  hostile and returns \<^verbatim>\<open>False\<close>. This is so whether one axis or both are out of
  bounds.
\<close>

theorem Monster_move_bounce:
  assumes "get_actor st (a_x (s_heap st m) + a_dx (s_heap st m))
                        (a_y (s_heap st m) + a_dy (s_heap st m)) = None"
    and "\<not> is_in_bounds st (a_x (s_heap st m) + a_dx (s_heap st m))
                            (a_y (s_heap st m) + a_dy (s_heap st m))"
  shows "Monster_move st m m dx dy =
     Inr (False, st\<lparr>s_heap := (s_heap st)(m := (s_heap st m)
        \<lparr>a_dx := (if is_in_bounds_x st (a_x (s_heap st m) + a_dx (s_heap st m))
                   then a_dx (s_heap st m) else - a_dx (s_heap st m)),
         a_dy := (if is_in_bounds_y st (a_y (s_heap st m) + a_dy (s_heap st m))
                   then a_dy (s_heap st m) else - a_dy (s_heap st m))\<rparr>)\<rparr>)"
  using assms
  by (auto simp: Monster_move_def Let_def is_in_bounds_def)

theorem Monster_move_bounce_witness:
  "get_position edge_stage 0 = (19, 5)
   \<and> a_dx (s_heap edge_stage 0) = 1 \<and> a_dy (s_heap edge_stage 0) = 1
   \<and> get_actor edge_stage 20 6 = None
   \<and> \<not> is_in_bounds_x edge_stage 20 \<and> is_in_bounds_y edge_stage 6
   \<and> Monster_move edge_stage 0 0 1 1 =
       Inr (False, edge_stage\<lparr>s_heap := (s_heap edge_stage)(0 := (s_heap edge_stage 0)\<lparr>a_dx := - 1\<rparr>)\<rparr>)"
  using Monster_move_bounce [of edge_stage 0 1 1]
  by (simp add: edge_stage_def build_defs grid_defs)

section \<open>The arguments of Monster.move\<close>



section \<open>The death of a hostile\<close>

declare remove_sticky_loop.simps [simp del]

lemma scan_remove_keep: "\<not> P a \<Longrightarrow> scan_remove P (a # bs) = a # scan_remove P bs"
  by (cases bs) simp_all

lemma adjacent_pair_Cons: "adjacent_pair P bs \<Longrightarrow> adjacent_pair P (b # bs)"
  by (cases bs) simp_all

lemma scan_remove_no_adjacent:
  "\<not> adjacent_pair P xs \<Longrightarrow> scan_remove P xs = filter (\<lambda>a. \<not> P a) xs"
  by (induction P xs rule: scan_remove.induct) (auto dest: adjacent_pair_Cons)

lemma scan_remove_keeps_others:
  "filter (\<lambda>a. \<not> P a) (scan_remove P xs) = filter (\<lambda>a. \<not> P a) xs"
  by (induction P xs rule: scan_remove.induct) auto

lemma set_scan_remove: "set (scan_remove P xs) \<subseteq> set xs"
  by (induction P xs rule: scan_remove.induct) auto

lemma remove_actor_not_Monster:
  "\<not> isinstance (cls_of st a) Monster \<Longrightarrow> a \<in> set (s_actors st) \<Longrightarrow>
   remove_actor st a = Inr (st\<lparr>s_actors := remove1 a (s_actors st)\<rparr>)"
  by (simp add: remove_actor_def list_remove_def del: isinstance.simps)

lemma remove_actor_Monster:
  "isinstance (cls_of st a) Monster \<Longrightarrow> a \<in> set (s_actors st) \<Longrightarrow> a \<in> set (s_monsters st) \<Longrightarrow>
   remove_actor st a =
     Inr (st\<lparr>s_monsters := remove1 a (s_monsters st), s_actors := remove1 a (s_actors st)\<rparr>)"
  by (simp add: remove_actor_def list_remove_def del: isinstance.simps)

lemma remove1_nth_distinct:
  "distinct xs \<Longrightarrow> i < length xs \<Longrightarrow> remove1 (xs ! i) xs = take i xs @ drop (Suc i) xs"
proof (induction xs arbitrary: i)
  case Nil
  then show ?case by simp
next
  case (Cons x xs)
  then show ?case by (cases i) auto
qed

lemma remove_sticky_loop_eq:
  "distinct (s_actors st) \<Longrightarrow>
   remove_sticky_loop st i =
     Inr (st\<lparr>s_actors := take i (s_actors st)
            @ scan_remove (\<lambda>a. isinstance (cls_of st a) StickyBox) (drop i (s_actors st))\<rparr>)"
proof (induction st i rule: remove_sticky_loop.induct)
  case (1 st i)
  let ?xs = "s_actors st"
  let ?P = "\<lambda>a. isinstance (cls_of st a) StickyBox"
  show ?case
  proof (cases "i < length ?xs")
    case False
    then show ?thesis by (subst remove_sticky_loop.simps) simp
  next
    case True
    let ?a = "?xs ! i"
    have dr: "drop i ?xs = ?a # drop (Suc i) ?xs"
      using True by (simp add: Cons_nth_drop_Suc)
    show ?thesis
    proof (cases "?P ?a")
      case False
      from "1.IH"(2) [OF True refl False "1.prems"]
      have "remove_sticky_loop st (i + 1) =
            Inr (st\<lparr>s_actors := take (i + 1) ?xs @ scan_remove ?P (drop (i + 1) ?xs)\<rparr>)" .
      then show ?thesis
        using True False dr
        by (subst remove_sticky_loop.simps)
           (simp add: scan_remove_keep take_Suc_conv_app_nth del: isinstance.simps)
    next
      case sticky: True
      then have nm: "\<not> isinstance (cls_of st ?a) Monster" by auto
      have mem: "?a \<in> set ?xs" using True by simp
      let ?st1 = "st\<lparr>s_actors := remove1 ?a ?xs\<rparr>"
      have ra: "remove_actor st ?a = Inr ?st1"
        using remove_actor_not_Monster [OF nm mem] .
      have r1: "remove1 ?a ?xs = take i ?xs @ drop (Suc i) ?xs"
        using remove1_nth_distinct [OF "1.prems" True] .
      have d1: "distinct (s_actors ?st1)" using "1.prems" by simp
      have cls: "cls_of ?st1 = cls_of st" by (simp add: cls_of_def fun_eq_iff)
      from "1.IH"(1) [OF True refl sticky ra d1]
      have ih: "remove_sticky_loop ?st1 (i + 1) =
            Inr (?st1\<lparr>s_actors := take (i + 1) (s_actors ?st1)
                  @ scan_remove ?P (drop (i + 1) (s_actors ?st1))\<rparr>)"
        by (simp only: cls)
      have len: "length (take i ?xs) = i" using True by simp
      have eq: "take (i + 1) (s_actors ?st1) @ scan_remove ?P (drop (i + 1) (s_actors ?st1))
                = take i ?xs @ scan_remove ?P (drop i ?xs)"
      proof (cases "drop (Suc i) ?xs")
        case Nil
        then show ?thesis using len sticky by (simp add: r1 dr del: isinstance.simps)
      next
        case (Cons b bs)
        then show ?thesis using len sticky by (simp add: r1 dr del: isinstance.simps)
      qed
      have step: "remove_sticky_loop st i = remove_sticky_loop ?st1 (i + 1)"
        using True sticky
        by (subst remove_sticky_loop.simps) (simp add: ra del: isinstance.simps)
      show ?thesis
        unfolding step ih eq by simp
    qed
  qed
qed

lemma Ripper_death:
  assumes "is_dead st r" and "isinstance (cls_of st r) Monster"
    and "r \<in> set (s_monsters st)" and "r \<in> set (s_actors st)" and "distinct (s_actors st)"
  shows "Ripper_step mv st r =
     Inr (None, st\<lparr>s_monsters := remove1 r (s_monsters st),
                   s_actors := scan_remove (\<lambda>a. isinstance (cls_of st a) StickyBox)
                                 (remove1 r (s_actors st))\<rparr>)"
proof -
  let ?st1 = "st\<lparr>s_monsters := remove1 r (s_monsters st), s_actors := remove1 r (s_actors st)\<rparr>"
  have ra: "remove_actor st r = Inr ?st1"
    using remove_actor_Monster [OF assms(2,4,3)] .
  have d1: "distinct (s_actors ?st1)" using assms(5) by simp
  have cls: "cls_of ?st1 = cls_of st" by (simp add: cls_of_def fun_eq_iff)
  have "remove_sticky_loop ?st1 0 =
     Inr (?st1\<lparr>s_actors := take 0 (s_actors ?st1)
            @ scan_remove (\<lambda>a. isinstance (cls_of ?st1 a) StickyBox) (drop 0 (s_actors ?st1))\<rparr>)"
    using remove_sticky_loop_eq [OF d1, of 0] .
  then have "remove_sticky_loop ?st1 0 =
     Inr (st\<lparr>s_monsters := remove1 r (s_monsters st),
              s_actors := scan_remove (\<lambda>a. isinstance (cls_of st a) StickyBox)
                                 (remove1 r (s_actors st))\<rparr>)"
    unfolding cls by simp
  then show ?thesis
    using assms(1) unfolding Ripper_step_def by (simp add: ra)
qed

lemma Monster_death:
  assumes "is_dead st m" and "isinstance (cls_of st m) Monster"
    and "m \<in> set (s_monsters st)" and "m \<in> set (s_actors st)"
  shows "Monster_step mv st m =
     Inr (Some True, st\<lparr>s_monsters := remove1 m (s_monsters st), s_actors := remove1 m (s_actors st)\<rparr>)"
  using assms(1) remove_actor_Monster [OF assms(2,4,3)] unfolding Monster_step_def by simp

lemma FreeMonster_death:
  assumes "is_dead st m" and "isinstance (cls_of st m) Monster"
    and "m \<in> set (s_monsters st)" and "m \<in> set (s_actors st)"
  shows "FreeMonster_step mv st m =
     Inr (None, st\<lparr>s_monsters := remove1 m (s_monsters st), s_actors := remove1 m (s_actors st)\<rparr>)"
  using assms(1) remove_actor_Monster [OF assms(2,4,3)] unfolding FreeMonster_step_def by simp

text \<open>
  What the step of a hostile whose death condition holds does, each actor being stored
  once in \<^verbatim>\<open>_actors\<close>. A hostile of a class other than Ripper is removed and
  nothing else is. A Ripper is removed and its loop
  \<^verbatim>\<open>for actor in self._stage._actors: if isinstance(actor, StickyBox):
  self._stage.remove_actor(actor)\<close> then runs over the list it is removing from: after
  each removal the following actors move one place down while the index of the loop
  moves one place up, so the actor that followed a removed StickyBox is never read
  (\<open>scan_remove\<close>). The loop removes nothing but StickyBoxes, and it removes all of
  them only when no two StickyBoxes are neighbours in \<^verbatim>\<open>_actors\<close>.
\<close>

lemma dead_hostile_step:
  assumes "is_dead st m" and "m \<in> set (s_monsters st)" and "m \<in> set (s_actors st)"
    and "distinct (s_actors st)"
    and "sticky = (\<lambda>a. isinstance (cls_of st a) StickyBox)"
    and "rest = remove1 m (s_actors st)"
  shows "(cls_of st m = Ripper \<longrightarrow>
            Ripper_step mv st m =
              Inr (None, st\<lparr>s_monsters := remove1 m (s_monsters st),
                            s_actors := scan_remove sticky rest\<rparr>))
       \<and> (cls_of st m = Monster \<longrightarrow>
            Monster_step mv st m =
              Inr (Some True, st\<lparr>s_monsters := remove1 m (s_monsters st), s_actors := rest\<rparr>))
       \<and> (cls_of st m = FreeMonster \<or> cls_of st m = BoxMonster \<or> cls_of st m = Boss \<longrightarrow>
            FreeMonster_step mv st m =
              Inr (None, st\<lparr>s_monsters := remove1 m (s_monsters st), s_actors := rest\<rparr>))
       \<and> filter (\<lambda>a. \<not> sticky a) (scan_remove sticky rest) = filter (\<lambda>a. \<not> sticky a) rest
       \<and> set (scan_remove sticky rest) \<subseteq> set rest
       \<and> (\<not> adjacent_pair sticky rest \<longrightarrow>
            scan_remove sticky rest = filter (\<lambda>a. \<not> sticky a) rest)"
proof (intro conjI impI)
  assume "cls_of st m = Ripper"
  then have "isinstance (cls_of st m) Monster" by simp
  from Ripper_death [OF assms(1) this assms(2,3,4)]
  show "Ripper_step mv st m =
              Inr (None, st\<lparr>s_monsters := remove1 m (s_monsters st),
                            s_actors := scan_remove sticky rest\<rparr>)"
    unfolding assms(5,6) .
next
  assume "cls_of st m = Monster"
  then have "isinstance (cls_of st m) Monster" by simp
  from Monster_death [OF assms(1) this assms(2,3)]
  show "Monster_step mv st m =
              Inr (Some True, st\<lparr>s_monsters := remove1 m (s_monsters st), s_actors := rest\<rparr>)"
    unfolding assms(6) .
next
  assume "cls_of st m = FreeMonster \<or> cls_of st m = BoxMonster \<or> cls_of st m = Boss"
  then have "isinstance (cls_of st m) Monster" by auto
  from FreeMonster_death [OF assms(1) this assms(2,3)]
  show "FreeMonster_step mv st m =
              Inr (None, st\<lparr>s_monsters := remove1 m (s_monsters st), s_actors := rest\<rparr>)"
    unfolding assms(6) .
next
  show "filter (\<lambda>a. \<not> sticky a) (scan_remove sticky rest) = filter (\<lambda>a. \<not> sticky a) rest"
    by (rule scan_remove_keeps_others)
next
  show "set (scan_remove sticky rest) \<subseteq> set rest" by (rule set_scan_remove)
next
  assume "\<not> adjacent_pair sticky rest"
  then show "scan_remove sticky rest = filter (\<lambda>a. \<not> sticky a) rest"
    by (rule scan_remove_no_adjacent)
qed

lemma dead_hostile_step_example:
  "is_dead spaced_stage 0 \<and> s_monsters spaced_stage = [0] \<and> s_actors spaced_stage = [0, 1, 2, 3]
   \<and> cls_of spaced_stage 0 = Ripper
   \<and> cls_of spaced_stage 1 = StickyBox \<and> cls_of spaced_stage 2 = Box
   \<and> cls_of spaced_stage 3 = StickyBox
   \<and> Ripper_step (move 1) spaced_stage 0 =
        Inr (None, spaced_stage\<lparr>s_monsters := [], s_actors := [2]\<rparr>)
   \<and> is_dead cornered_stage 0 \<and> cls_of cornered_stage 0 = Monster
   \<and> Monster_step (move 1) cornered_stage 0 =
        Inr (Some True, cornered_stage\<lparr>s_monsters := [], s_actors := [1, 2, 3]\<rparr>)"
proof -
  have d: "is_dead spaced_stage 0"
    by (simp add: is_dead_def surrounding_pos_def moves8_def spaced_stage_def build_defs grid_defs)
  have l: "s_monsters spaced_stage = [0]" "s_actors spaced_stage = [0, 1, 2, 3]"
    "cls_of spaced_stage 0 = Ripper" "cls_of spaced_stage 1 = StickyBox"
    "cls_of spaced_stage 2 = Box" "cls_of spaced_stage 3 = StickyBox"
    by (simp_all add: spaced_stage_def build_defs)
  have d2: "is_dead cornered_stage 0"
    by (simp add: is_dead_def surrounding_pos_def moves8_def cornered_stage_def build_defs grid_defs)
  have l2: "s_monsters cornered_stage = [0]" "s_actors cornered_stage = [0, 1, 2, 3]"
    "cls_of cornered_stage 0 = Monster"
    by (simp_all add: cornered_stage_def build_defs)
  from dead_hostile_step [OF d _ _ _ refl refl, of "move 1"]
       dead_hostile_step [OF d2 _ _ _ refl refl, of "move 1"]
  show ?thesis using d d2 l l2 by simp
qed

text \<open>
  C4. The death of a Ripper does not remove every StickyBox: on \<open>pen_stage\<close> the Ripper
  is dead and \<^verbatim>\<open>_actors\<close> holds it, then two StickyBoxes (addresses 1 and 2), then a
  Box. Its step removes the Ripper and the first StickyBox and steps over the second,
  which is still in \<^verbatim>\<open>_actors\<close>, on its cell \<open>(0, 1)\<close>, when the step returns.
\<close>

theorem Ripper_death_leaves_sticky_box:
  "cls_of pen_stage 0 = Ripper \<and> is_dead pen_stage 0
   \<and> s_actors pen_stage = [0, 1, 2, 3] \<and> s_monsters pen_stage = [0]
   \<and> cls_of pen_stage 1 = StickyBox \<and> cls_of pen_stage 2 = StickyBox
   \<and> Ripper_step (move 1) pen_stage 0 =
        Inr (None, pen_stage\<lparr>s_monsters := [], s_actors := [2, 3]\<rparr>)
   \<and> cls_of (pen_stage\<lparr>s_monsters := [], s_actors := [2, 3]\<rparr>) 2 = StickyBox
   \<and> get_actor (pen_stage\<lparr>s_monsters := [], s_actors := [2, 3]\<rparr>) 0 1 = Some 2"
  by (simp add: Ripper_step_def is_dead_def surrounding_pos_def moves8_def remove_actor_def
        list_remove_def remove_sticky_loop.simps pen_stage_def build_defs grid_defs)

section \<open>The throttle\<close>





section \<open>Stage.clear and the list of monsters\<close>

lemma filter_remove1_in:
  "P a \<Longrightarrow> filter P (remove1 a xs) = remove1 a (filter P xs)"
  by (induction xs) auto

lemma filter_remove1_out:
  "\<not> P a \<Longrightarrow> filter P (remove1 a xs) = filter P xs"
  by (induction xs) auto

text \<open>
  \<^verbatim>\<open>add_actor\<close> and \<^verbatim>\<open>remove_actor\<close> keep \<^verbatim>\<open>_monsters\<close> equal to the Monster
  instances of \<^verbatim>\<open>_actors\<close>, in the same order.
\<close>

lemma add_actor_monsters:
  assumes "s_monsters st = filter (\<lambda>a. isinstance (cls_of st a) Monster) (s_actors st)"
  shows "s_monsters (add_actor st b) =
           filter (\<lambda>a. isinstance (cls_of (add_actor st b) a) Monster) (s_actors (add_actor st b))"
  using assms by (simp add: add_actor_def cls_of_def del: isinstance.simps)

lemma remove_actor_monsters:
  assumes "s_monsters st = filter (\<lambda>a. isinstance (cls_of st a) Monster) (s_actors st)"
    and "remove_actor st b = Inr st'"
  shows "s_monsters st' = filter (\<lambda>a. isinstance (cls_of st' a) Monster) (s_actors st')"
proof (cases "isinstance (cls_of st b) Monster")
  case True
  with assms(2) have st': "st' = st\<lparr>s_monsters := remove1 b (s_monsters st),
                                    s_actors := remove1 b (s_actors st)\<rparr>"
    by (auto simp: remove_actor_def list_remove_def split: if_splits simp del: isinstance.simps)
  have "cls_of st' = cls_of st" by (simp add: st' cls_of_def fun_eq_iff)
  then show ?thesis
    using assms(1) True
    by (simp add: st' filter_remove1_in [of "\<lambda>a. isinstance (cls_of st a) Monster"]
          del: isinstance.simps)
next
  case False
  with assms(2) have st': "st' = st\<lparr>s_actors := remove1 b (s_actors st)\<rparr>"
    by (auto simp: remove_actor_def list_remove_def split: if_splits simp del: isinstance.simps)
  have "cls_of st' = cls_of st" by (simp add: st' cls_of_def fun_eq_iff)
  then show ?thesis
    using assms(1) False
    by (simp add: st' filter_remove1_out [of "\<lambda>a. isinstance (cls_of st a) Monster"]
          del: isinstance.simps)
qed

text \<open>
  C8. After \<^verbatim>\<open>add_actor\<close> of a Monster and \<^verbatim>\<open>clear\<close>, \<^verbatim>\<open>_actors\<close> is empty and
  \<^verbatim>\<open>_monsters\<close> still holds the Monster: \<^verbatim>\<open>Stage.clear\<close> empties \<^verbatim>\<open>_actors\<close> only.
\<close>

theorem clear_leaves_stale_monsters:
  "s_actors (clear (put (Stage_init 20 20 rnd) Monster 7 4 5)) = []
   \<and> s_monsters (clear (put (Stage_init 20 20 rnd) Monster 7 4 5)) = [0]
   \<and> cls_of (clear (put (Stage_init 20 20 rnd) Monster 7 4 5)) 0 = Monster"
  by (simp add: clear_def build_defs)

section \<open>The positions setup gives out\<close>

text \<open>
  C9. On the stage of the game, \<^verbatim>\<open>Stage(20, 20, 24)\<close>, the fourth actor that
  \<^verbatim>\<open>setup\<close> creates is \<^verbatim>\<open>Monster("icons/monster.png", ww, 5, 20, 2)\<close>: its
  position \<open>(5, 20)\<close> is not in bounds, since \<open>y = 20\<close> is the height.
\<close>

theorem setup_puts_monster_out_of_bounds:
  "s_actors (setup_fixed (Stage_init 20 20 rnd)) = [0, 1, 2, 3]
   \<and> cls_of (setup_fixed (Stage_init 20 20 rnd)) 3 = Monster
   \<and> get_position (setup_fixed (Stage_init 20 20 rnd)) 3 = (5, 20)
   \<and> \<not> is_in_bounds (setup_fixed (Stage_init 20 20 rnd)) 5 20"
  by (simp add: setup_fixed_def build_defs get_position_def is_in_bounds_def
        is_in_bounds_x_def is_in_bounds_y_def)

text \<open>The random placements that follow only add actors.\<close>

lemma stray_put: "stray st \<Longrightarrow> stray (put st k x y dl)"
  by (auto simp: stray_def put_def construct_def add_actor_def cls_of_def get_position_def Let_def)

lemma stray_randrange: "randrange st n = Inr (v, st') \<Longrightarrow> stray st \<Longrightarrow> stray st'"
  by (auto simp: randrange_def stray_def cls_of_def get_position_def split: if_splits)

lemma stray_randint: "randint st a b = Inr (v, st') \<Longrightarrow> stray st \<Longrightarrow> stray st'"
  by (auto simp: randint_def stray_def cls_of_def get_position_def split: if_splits)

lemma stray_place_random:
  assumes "place_random st k dl = Inr (added, st')" and "stray st"
  shows "stray st'"
proof -
  from assms(1) obtain x st1 y st2 where
    r1: "randrange st (s_width st) = Inr (x, st1)"
    and r2: "randrange st1 (s_height st1) = Inr (y, st2)"
    and st': "st' = put st2 k x y dl \<or> st' = st2"
    by (auto simp: place_random_def split: sum.splits if_splits)
  from stray_randrange [OF r2 stray_randrange [OF r1 assms(2)]] have "stray st2" .
  with st' stray_put show ?thesis by blast
qed

lemma stray_place_times:
  "place_times n st k dl = Inr st' \<Longrightarrow> stray st \<Longrightarrow> stray st'"
  by (induction n arbitrary: st) (auto split: sum.splits dest: stray_place_random)

lemma stray_place_boxes:
  assumes "place_boxes num st = Some res"
  shows "stray st \<longrightarrow> (\<forall>st'. res = Inr st' \<longrightarrow> stray st')"
proof (rule place_boxes.raw_induct
    [where P = "\<lambda>num st res. stray st \<longrightarrow> (\<forall>st'. res = Inr st' \<longrightarrow> stray st')", OF _ assms])
  fix f :: "int \<Rightarrow> stage \<Rightarrow> (error + stage) option" and num st res
  assume ih: "\<And>num st res. f num st = Some res \<Longrightarrow>
                 stray st \<longrightarrow> (\<forall>st'. res = Inr st' \<longrightarrow> stray st')"
    and body: "(if num < 100
      then case place_random st Box 5 of Inl e \<Rightarrow> Some (Inl e)
           | Inr (added, st1) \<Rightarrow> f (if added then num + 1 else num) st1
      else Some (Inr st)) = Some res"
  show "stray st \<longrightarrow> (\<forall>st'. res = Inr st' \<longrightarrow> stray st')"
  proof (cases "num < 100")
    case False
    with body show ?thesis by auto
  next
    case True
    show ?thesis
    proof (cases "place_random st Box 5")
      case (Inl e)
      with True body show ?thesis by auto
    next
      case (Inr p)
      obtain added st1 where p: "p = (added, st1)" by (cases p)
      from True Inr p body
      have "f (if added then num + 1 else num) st1 = Some res" by simp
      from ih [OF this] stray_place_random [OF Inr [unfolded p]] show ?thesis by blast
    qed
  qed
qed

lemma stray_setup_fixed: "stray (setup_fixed (Stage_init 20 20 rnd))"
  by (simp add: stray_def setup_fixed_def build_defs get_position_def)

text \<open>
  Whatever the random draws, a \<^verbatim>\<open>setup\<close> that returns leaves that Monster on the
  stage, out of bounds.
\<close>

lemma setup_stage_keeps_stray_monster:
  assumes "setup_stage (Stage_init 20 20 rnd) = Some (Inr st')"
  shows "3 \<in> set (s_actors st') \<and> cls_of st' 3 = Monster \<and> get_position st' 3 = (5, 20)
         \<and> \<not> is_in_bounds st' 5 20"
proof -
  have "stray st'"
    using assms stray_setup_fixed [of rnd]
    unfolding setup_stage_def setup_random_def
    by (auto split: sum.splits
          dest!: stray_randint stray_place_times stray_place_random stray_place_boxes)
  then show ?thesis
    by (simp add: stray_def is_in_bounds_def is_in_bounds_y_def)
qed

section \<open>One actor per cell\<close>

lemma get_actor_own_position:
  assumes "single_occupancy st" and "a \<in> set (s_actors st)"
  shows "get_actor st (fst (get_position st a)) (snd (get_position st a)) = Some a"
proof -
  have "\<exists>b. get_actor st (fst (get_position st a)) (snd (get_position st a)) = Some b"
    using assms(2) by (cases "get_actor st (fst (get_position st a)) (snd (get_position st a))")
      (auto simp: get_actor_None_iff)
  then obtain b where b: "get_actor st (fst (get_position st a)) (snd (get_position st a)) = Some b"
    by blast
  from get_actor_SomeD [OF b] assms show ?thesis
    unfolding b single_occupancy_def by auto
qed

lemma grid_consistent_iff: "grid_consistent st \<longleftrightarrow> single_occupancy st"
proof
  assume g: "grid_consistent st"
  show "single_occupancy st"
    unfolding single_occupancy_def
  proof (intro ballI impI)
    fix a b
    assume "a \<in> set (s_actors st)" "b \<in> set (s_actors st)"
      and eq: "get_position st a = get_position st b"
    with g have "get_actor st (fst (get_position st a)) (snd (get_position st a)) = Some a"
      "get_actor st (fst (get_position st b)) (snd (get_position st b)) = Some b"
      unfolding grid_consistent_def by blast+
    with eq show "a = b" by (metis option.inject)
  qed
next
  assume "single_occupancy st"
  then show "grid_consistent st"
    unfolding grid_consistent_def using get_actor_own_position by blast
qed

lemma same_grid_refl: "same_grid st st"
  by (simp add: same_grid_def)

lemma same_grid_trans: "same_grid st st1 \<Longrightarrow> same_grid st1 st2 \<Longrightarrow> same_grid st st2"
  by (auto simp: same_grid_def)

lemma well_placed_same_grid: "same_grid st st' \<Longrightarrow> well_placed st \<Longrightarrow> well_placed st'"
  unfolding same_grid_def well_placed_def single_occupancy_def concrete_kinds_def
  by (simp add: subset_iff)

lemma same_grid_heap:
  assumes "a_x obj = a_x (s_heap st a)" and "a_y obj = a_y (s_heap st a)"
    and "a_class obj = a_class (s_heap st a)"
  shows "same_grid st (st\<lparr>s_heap := (s_heap st)(a := obj)\<rparr>)"
  using assms by (auto simp: same_grid_def get_position_def cls_of_def fun_eq_iff)

lemma well_placed_set_position:
  assumes "well_placed st" and "get_actor st x y = None"
  shows "well_placed (set_position st a x y)"
proof -
  have pos: "\<And>b. get_position (set_position st a x y) b = (if b = a then (x, y) else get_position st b)"
    by (simp add: set_position_def get_position_def)
  have act: "s_actors (set_position st a x y) = s_actors st"
    by (simp add: set_position_def)
  have cls: "cls_of (set_position st a x y) = cls_of st"
    by (simp add: set_position_def cls_of_def fun_eq_iff)
  from assms(2) have free: "\<forall>b\<in>set (s_actors st). get_position st b \<noteq> (x, y)"
    by (simp add: get_actor_None_iff)
  from assms(1) free show ?thesis
    unfolding well_placed_def single_occupancy_def concrete_kinds_def act cls pos
    by (auto split: if_splits)
qed

lemma Actor_move_free:
  assumes "well_placed st"
    and "get_actor st (a_x (s_heap st self) + dx) (a_y (s_heap st self) + dy) = None"
    and "Actor_move st self other dx dy = Inr (r, st')"
  shows "well_placed st'"
  using assms well_placed_set_position [OF assms(1,2), of self]
  by (auto simp: Actor_move_def)

lemma delay_same_grid: "delay st a = Inr (go, st') \<Longrightarrow> same_grid st st'"
  by (auto simp: delay_def Let_def split: if_splits intro!: same_grid_heap)

lemma random_choice_same_grid: "random_choice st = (d, st') \<Longrightarrow> same_grid st st'"
  by (auto simp: random_choice_def same_grid_def get_position_def cls_of_def fun_eq_iff)

lemma remove_actor_same_grid:
  assumes "remove_actor st a = Inr st'"
  shows "same_grid st st'"
proof -
  from assms have "s_actors st' = remove1 a (s_actors st) \<and> s_heap st' = s_heap st"
    by (auto simp: remove_actor_def list_remove_def split: if_splits simp del: isinstance.simps)
  then show ?thesis
    using set_remove1_subset [of a "s_actors st"]
    by (simp add: same_grid_def get_position_def cls_of_def fun_eq_iff)
qed

lemma remove_sticky_loop_same_grid:
  "remove_sticky_loop st i = Inr st' \<Longrightarrow> same_grid st st'"
proof (induction st i rule: remove_sticky_loop.induct)
  case (1 st i)
  show ?case
  proof (cases "i < length (s_actors st)")
    case False
    with "1.prems" show ?thesis
      by (subst (asm) remove_sticky_loop.simps) (simp add: same_grid_refl)
  next
    case True
    show ?thesis
    proof (cases "isinstance (cls_of st (s_actors st ! i)) StickyBox")
      case False
      with True "1.prems" have "remove_sticky_loop st (i + 1) = Inr st'"
        by (subst (asm) remove_sticky_loop.simps) (simp del: isinstance.simps)
      from "1.IH"(2) [OF True refl False this] show ?thesis .
    next
      case sticky: True
      with True "1.prems" obtain st1 where
        ra: "remove_actor st (s_actors st ! i) = Inr st1"
        and rest: "remove_sticky_loop st1 (i + 1) = Inr st'"
        by (subst (asm) remove_sticky_loop.simps)
           (auto simp del: isinstance.simps split: sum.splits)
      from "1.IH"(1) [OF True refl sticky ra rest] remove_actor_same_grid [OF ra]
      show ?thesis by (rule same_grid_trans [rotated])
    qed
  qed
qed

lemma aheadD:
  "ahead mv \<Longrightarrow> mv st a other dx dy = Inr (r, st') \<Longrightarrow> moved st st' b \<Longrightarrow> ahead_of st a dx dy b"
  unfolding ahead_def by blast

lemma not_moved_same_grid: "same_grid st st' \<Longrightarrow> \<not> moved st st' b"
  by (simp add: same_grid_def moved_def)

lemma moved_trans: "moved st st2 b \<Longrightarrow> moved st st1 b \<or> moved st1 st2 b"
  by (auto simp: moved_def)

lemma moved_heap_same:
  assumes "a_x obj = a_x (s_heap st a)" and "a_y obj = a_y (s_heap st a)"
  shows "\<not> moved st (st\<lparr>s_heap := (s_heap st)(a := obj)\<rparr>) b"
  using assms by (simp add: moved_def get_position_def)

lemma Actor_move_moved:
  "Actor_move st a other dx dy = Inr (r, st') \<Longrightarrow> moved st st' b \<Longrightarrow> b = a"
  by (auto simp: Actor_move_def set_position_def moved_def get_position_def split: if_splits)

lemma Monster_move_moved:
  assumes "Monster_move st a other dx dy = Inr (r, st')" and "moved st st' b"
  shows "b = a"
proof (rule ccontr)
  assume "b \<noteq> a"
  with assms(1) have "get_position st' b = get_position st b"
    by (auto simp: Monster_move_def Let_def Actor_move_def set_position_def get_position_def
          split: if_splits)
  with assms(2) show False by (simp add: moved_def)
qed

lemma FreeMonster_move_moved:
  assumes stp: "\<And>r1 st1. stp st a = Inr (r1, st1) \<Longrightarrow> moved st st1 b \<Longrightarrow> b = a"
    and res: "FreeMonster_move stp st a other dx dy = Inr (r, st')" and mv: "moved st st' b"
  shows "b = a"
proof (rule ccontr)
  assume ne: "b \<noteq> a"
  from res mv ne stp show False
    by (auto simp: FreeMonster_move_def Let_def Actor_move_def set_position_def moved_def
          get_position_def split: if_splits sum.splits)
qed

lemma Ripper_move_moved:
  assumes stp: "\<And>r1 st1. stp st a = Inr (r1, st1) \<Longrightarrow> moved st st1 b \<Longrightarrow> b = a"
    and res: "Ripper_move stp st a other dx dy = Inr (r, st')" and mv: "moved st st' b"
  shows "b = a"
proof (rule ccontr)
  assume ne: "b \<noteq> a"
  from res mv ne stp show False
    by (auto simp: Ripper_move_def Let_def Actor_move_def set_position_def moved_def
          get_position_def split: if_splits sum.splits)
qed

lemma random_twice_same_grid:
  assumes "random_choice st1 = (dx, st2)" and "random_choice st2 = (dy, st3)"
  shows "same_grid st1 st3"
  using random_choice_same_grid [OF assms(1)] random_choice_same_grid [OF assms(2)]
  by (rule same_grid_trans)

text \<open>A step either rests (positions, classes kept, list at most shrunk) or moves.\<close>

lemma Monster_step_cases:
  assumes "Monster_step mv st a = Inr (r, st')"
  obtains (moving) st1 r2 where "same_grid st st1"
      and "mv st1 a a (a_dx (s_heap st1 a)) (a_dy (s_heap st1 a)) = Inr (r2, st')"
    | (resting) "same_grid st st'"
proof (cases "\<not> is_dead st a \<and> \<not> is_stuck st a")
  case True
  with assms obtain go st1 where d: "delay st a = Inr (go, st1)"
    by (cases "delay st a") (auto simp: Monster_step_def)
  show thesis
  proof (cases go)
    case False
    with assms True d have "st' = st1" by (simp add: Monster_step_def)
    with delay_same_grid [OF d] show thesis by (auto intro: resting)
  next
    case go: True
    with assms True d obtain r2 where
      "mv st1 a a (a_dx (s_heap st1 a)) (a_dy (s_heap st1 a)) = Inr (r2, st')"
      by (auto simp: Monster_step_def split: sum.splits)
    with delay_same_grid [OF d] show thesis by (auto intro: moving)
  qed
next
  case False
  with assms have "same_grid st st'"
    by (auto simp: Monster_step_def same_grid_refl split: if_splits sum.splits
          dest: remove_actor_same_grid)
  then show thesis by (rule resting)
qed

lemma FreeMonster_step_cases:
  assumes "FreeMonster_step mv st a = Inr (r, st')"
  obtains (moving) st3 dx dy r2 where "same_grid st st3" and "mv st3 a a dx dy = Inr (r2, st')"
    | (resting) "same_grid st st'"
proof (cases "\<not> is_dead st a \<and> \<not> is_stuck st a")
  case True
  with assms obtain go st1 where d: "delay st a = Inr (go, st1)"
    by (cases "delay st a") (auto simp: FreeMonster_step_def)
  show thesis
  proof (cases go)
    case False
    with assms True d have "st' = st1" by (simp add: FreeMonster_step_def)
    with delay_same_grid [OF d] show thesis by (auto intro: resting)
  next
    case go: True
    obtain dx st2 where r1: "random_choice st1 = (dx, st2)" by (cases "random_choice st1")
    obtain dy st3 where r2: "random_choice st2 = (dy, st3)" by (cases "random_choice st2")
    from assms True d go r1 r2 obtain r3 where
      "mv st3 a a dx dy = Inr (r3, st')"
      by (auto simp: FreeMonster_step_def split: sum.splits)
    moreover have "same_grid st st3"
      using delay_same_grid [OF d] random_twice_same_grid [OF r1 r2]
      by (rule same_grid_trans)
    ultimately show thesis by (auto intro: moving)
  qed
next
  case False
  with assms have "same_grid st st'"
    by (auto simp: FreeMonster_step_def same_grid_refl split: if_splits sum.splits
          dest: remove_actor_same_grid)
  then show thesis by (rule resting)
qed

lemma Ripper_step_cases:
  assumes "Ripper_step mv st a = Inr (r, st')"
  obtains (moving) st3 dx dy r2 where "same_grid st st3" and "mv st3 a a dx dy = Inr (r2, st')"
    | (resting) "same_grid st st'"
proof (cases "\<not> is_dead st a \<and> \<not> is_stuck st a")
  case True
  with assms obtain go st1 where d: "delay st a = Inr (go, st1)"
    by (cases "delay st a") (auto simp: Ripper_step_def)
  show thesis
  proof (cases go)
    case False
    with assms True d have "st' = st1" by (simp add: Ripper_step_def)
    with delay_same_grid [OF d] show thesis by (auto intro: resting)
  next
    case go: True
    obtain dx st2 where r1: "random_choice st1 = (dx, st2)" by (cases "random_choice st1")
    obtain dy st3 where r2: "random_choice st2 = (dy, st3)" by (cases "random_choice st2")
    from assms True d go r1 r2 obtain r3 where
      "mv st3 a a dx dy = Inr (r3, st')"
      by (auto simp: Ripper_step_def split: sum.splits)
    moreover have "same_grid st st3"
      using delay_same_grid [OF d] random_twice_same_grid [OF r1 r2]
      by (rule same_grid_trans)
    ultimately show thesis by (auto intro: moving)
  qed
next
  case False
  with assms have "same_grid st st'"
    by (auto simp: Ripper_step_def same_grid_refl split: if_splits sum.splits
          dest: remove_actor_same_grid remove_sticky_loop_same_grid same_grid_trans)
  then show thesis by (rule resting)
qed

lemma same_grid_dead:
  "same_grid st (st\<lparr>s_heap := (s_heap st)(a := (s_heap st a)\<lparr>a_dead := True\<rparr>)\<rparr>)"
  by (rule same_grid_heap) simp_all

text \<open>The ways through the move of a KeyboardPlayer and of a Box.\<close>

lemma KeyboardPlayer_move_cases:
  assumes "KeyboardPlayer_move mv st a other dx dy = Inr (r, st')"
  obtains (direct) "get_actor st (a_x (s_heap st a) + dx) (a_y (s_heap st a) + dy) = None"
      and "Actor_move st a other dx dy = Inr (r, st')"
    | (still) "same_grid st st'"
    | (pushed) occ r1 st1 where
        "get_actor st (a_x (s_heap st a) + dx) (a_y (s_heap st a) + dy) = Some occ"
      and "\<not> isinstance (cls_of st occ) Wall"
      and "mv st occ a dx dy = Inr (r1, st1)"
      and "get_actor st1 (a_x (s_heap st a) + dx) (a_y (s_heap st a) + dy) = None"
      and "Actor_move st1 a other dx dy = Inr (r, st')"
    | (blocked) occ r1 st1 where
        "get_actor st (a_x (s_heap st a) + dx) (a_y (s_heap st a) + dy) = Some occ"
      and "\<not> isinstance (cls_of st occ) Wall"
      and "mv st occ a dx dy = Inr (r1, st1)"
      and "same_grid st1 st'"
proof -
  let ?x = "a_x (s_heap st a) + dx" and ?y = "a_y (s_heap st a) + dy"
  show thesis
  proof (cases "is_in_bounds st ?x ?y")
    case False
    with assms have "st' = st" by (simp add: KeyboardPlayer_move_def)
    then show thesis using same_grid_refl by (auto intro: still)
  next
    case inb: True
    show thesis
    proof (cases "get_actor st ?x ?y")
      case None
      with assms inb have "Actor_move st a other dx dy = Inr (r, st')"
        by (simp add: KeyboardPlayer_move_def)
      with None show thesis by (rule direct)
    next
      case (Some occ)
      show thesis
      proof (cases "isinstance (cls_of st occ) Wall")
        case True
        with assms inb Some have "same_grid st st'"
          by (auto simp: KeyboardPlayer_move_def Let_def same_grid_refl same_grid_dead
                split: if_splits simp del: isinstance.simps)
        then show thesis by (rule still)
      next
        case False
        from assms inb Some False obtain r1 st1 where
          call: "mv st occ a dx dy = Inr (r1, st1)"
          by (cases "mv st occ a dx dy")
             (auto simp: KeyboardPlayer_move_def Let_def simp del: isinstance.simps)
        show thesis
        proof (cases "get_actor st1 ?x ?y = None")
          case True
          with assms inb Some False call
          have "Actor_move st1 a other dx dy = Inr (r, st')"
            by (simp add: KeyboardPlayer_move_def Let_def del: isinstance.simps)
          with Some False call True show thesis by (rule pushed)
        next
          case occupied: False
          with assms inb Some False call have "same_grid st1 st'"
            by (auto simp: KeyboardPlayer_move_def Let_def same_grid_refl same_grid_dead
                  split: if_splits simp del: isinstance.simps)
          with Some False call show thesis by (rule blocked)
        qed
      qed
    qed
  qed
qed

lemma Box_move_cases:
  assumes "Box_move mv st a other dx dy = Inr (r, st')"
  obtains (direct) "get_actor st (a_x (s_heap st a) + dx) (a_y (s_heap st a) + dy) = None"
      and "Actor_move st a other dx dy = Inr (r, st')"
    | (still) "same_grid st st'"
    | (pushed) occ r1 st1 r2 where
        "get_actor st (a_x (s_heap st a) + dx) (a_y (s_heap st a) + dy) = Some occ"
      and "\<not> isinstance (cls_of st occ) Wall"
      and "mv st occ a dx dy = Inr (r1, st1)"
      and "get_actor st1 (a_x (s_heap st a) + dx) (a_y (s_heap st a) + dy) = None"
      and "Actor_move st1 a other dx dy = Inr (r2, st')"
    | (blocked) occ r1 st1 where
        "get_actor st (a_x (s_heap st a) + dx) (a_y (s_heap st a) + dy) = Some occ"
      and "\<not> isinstance (cls_of st occ) Wall"
      and "mv st occ a dx dy = Inr (r1, st1)"
      and "same_grid st1 st'"
proof -
  let ?x = "a_x (s_heap st a) + dx" and ?y = "a_y (s_heap st a) + dy"
  show thesis
  proof (cases "is_in_bounds st ?x ?y")
    case False
    with assms have "st' = st" by (simp add: Box_move_def)
    then show thesis using same_grid_refl by (auto intro: still)
  next
    case inb: True
    show thesis
    proof (cases "get_actor st ?x ?y")
      case None
      with assms inb have "Actor_move st a other dx dy = Inr (r, st')"
        by (simp add: Box_move_def)
      with None show thesis by (rule direct)
    next
      case (Some occ)
      show thesis
      proof (cases "isinstance (cls_of st occ) Wall")
        case True
        with assms inb Some have "st' = st"
          by (simp add: Box_move_def Let_def del: isinstance.simps)
        then show thesis using same_grid_refl by (auto intro: still)
      next
        case False
        from assms inb Some False obtain r1 st1 where
          call: "mv st occ a dx dy = Inr (r1, st1)"
          by (cases "mv st occ a dx dy")
             (auto simp: Box_move_def Let_def simp del: isinstance.simps)
        show thesis
        proof (cases "get_actor st1 ?x ?y = None")
          case True
          with assms inb Some False call obtain r2 where
            "Actor_move st1 a other dx dy = Inr (r2, st')"
            by (auto simp: Box_move_def Let_def split: sum.splits simp del: isinstance.simps)
          with Some False call True show thesis by (auto intro: pushed)
        next
          case occupied: False
          with assms inb Some False call have "st' = st1"
            by (simp add: Box_move_def Let_def del: isinstance.simps)
          with Some False call show thesis using same_grid_refl by (auto intro: blocked)
        qed
      qed
    qed
  qed
qed

text \<open>What a push moves lies ahead of the pusher, in the direction of the push.\<close>

lemma occupant_dot:
  assumes "get_actor st (a_x (s_heap st a) + dx) (a_y (s_heap st a) + dy) = Some occ"
  shows "dot st dx dy occ = dot st dx dy a + dx * dx + dy * dy"
  using get_actor_SomeD [OF assms]
  by (simp add: dot_def get_position_def algebra_simps)

lemma pushed_ahead:
  assumes occ: "get_actor st (a_x (s_heap st a) + dx) (a_y (s_heap st a) + dy) = Some occ"
    and "ahead_of st occ dx dy b" and "pusher (cls_of st a)"
  shows "ahead_of st a dx dy b"
proof -
  have sq: "0 \<le> dx * dx" "0 \<le> dy * dy" by simp_all
  from assms(2) have "dot st dx dy occ \<le> dot st dx dy b"
  proof (unfold ahead_of_def, elim disjE conjE)
    assume "b = occ"
    then show ?thesis by simp
  next
    assume "dot st dx dy occ + dx * dx + dy * dy \<le> dot st dx dy b"
    with sq show ?thesis by linarith
  qed
  with occupant_dot [OF occ] assms(3) show ?thesis
    by (simp add: ahead_of_def)
qed

lemma pusher_not_moved_by_push:
  assumes occ: "get_actor st (a_x (s_heap st a) + dx) (a_y (s_heap st a) + dy) = Some occ"
    and "ahead_of st occ dx dy a"
  shows "dx = 0 \<and> dy = 0"
proof -
  have sq: "0 \<le> dx * dx" "0 \<le> dy * dy" by simp_all
  from assms(2) have "dx * dx + dy * dy \<le> 0"
  proof (unfold ahead_of_def, elim disjE conjE)
    assume "a = occ"
    with get_actor_SomeD [OF occ] have "dx = 0 \<and> dy = 0"
      by (simp add: get_position_def)
    then show ?thesis by simp
  next
    assume "dot st dx dy occ + dx * dx + dy * dy \<le> dot st dx dy a"
    with occupant_dot [OF occ] sq show ?thesis by simp
  qed
  with sq have "dx * dx = 0 \<and> dy * dy = 0" by linarith
  then show ?thesis by simp
qed

lemma KeyboardPlayer_move_ahead:
  assumes a: "ahead mv" and p: "pusher (cls_of st a)"
    and res: "KeyboardPlayer_move mv st a other dx dy = Inr (r, st')" and m: "moved st st' b"
  shows "ahead_of st a dx dy b"
  using res
proof (cases rule: KeyboardPlayer_move_cases)
  case direct
  from Actor_move_moved [OF direct(2) m] show ?thesis by (simp add: ahead_of_def)
next
  case still
  with m show ?thesis by (simp add: not_moved_same_grid)
next
  case (pushed occ r1 st1)
  from moved_trans [OF m, of st1] show ?thesis
  proof
    assume "moved st st1 b"
    from pushed_ahead [OF pushed(1) aheadD [OF a pushed(3) this] p] show ?thesis .
  next
    assume "moved st1 st' b"
    from Actor_move_moved [OF pushed(5) this] show ?thesis by (simp add: ahead_of_def)
  qed
next
  case (blocked occ r1 st1)
  from moved_trans [OF m, of st1] not_moved_same_grid [OF blocked(4)]
  have "moved st st1 b" by blast
  from pushed_ahead [OF blocked(1) aheadD [OF a blocked(3) this] p] show ?thesis .
qed

lemma Box_move_ahead:
  assumes a: "ahead mv" and p: "pusher (cls_of st a)"
    and res: "Box_move mv st a other dx dy = Inr (r, st')" and m: "moved st st' b"
  shows "ahead_of st a dx dy b"
  using res
proof (cases rule: Box_move_cases)
  case direct
  from Actor_move_moved [OF direct(2) m] show ?thesis by (simp add: ahead_of_def)
next
  case still
  with m show ?thesis by (simp add: not_moved_same_grid)
next
  case (pushed occ r1 st1 r2)
  from moved_trans [OF m, of st1] show ?thesis
  proof
    assume "moved st st1 b"
    from pushed_ahead [OF pushed(1) aheadD [OF a pushed(3) this] p] show ?thesis .
  next
    assume "moved st1 st' b"
    from Actor_move_moved [OF pushed(5) this] show ?thesis by (simp add: ahead_of_def)
  qed
next
  case (blocked occ r1 st1)
  from moved_trans [OF m, of st1] not_moved_same_grid [OF blocked(4)]
  have "moved st st1 b" by blast
  from pushed_ahead [OF blocked(1) aheadD [OF a blocked(3) this] p] show ?thesis .
qed

lemma moved_same_grid_left: "same_grid st st1 \<Longrightarrow> moved st st' b \<Longrightarrow> moved st1 st' b"
  by (simp add: same_grid_def moved_def)

lemma callback_moves_self:
  assumes a: "ahead mv" and np: "\<not> pusher (cls_of st a)" and sg: "same_grid st st3"
    and call: "mv st3 a a dx dy = Inr (r2, st')" and m: "moved st st' b"
  shows "b = a"
proof -
  from aheadD [OF a call moved_same_grid_left [OF sg m]] have "ahead_of st3 a dx dy b" .
  moreover from sg have "cls_of st3 = cls_of st" by (simp add: same_grid_def)
  ultimately show ?thesis using np by (simp add: ahead_of_def)
qed

lemma FreeMonster_step_moved:
  assumes a: "ahead mv" and np: "\<not> pusher (cls_of st a)"
    and res: "FreeMonster_step mv st a = Inr (r, st')" and m: "moved st st' b"
  shows "b = a"
  using res
proof (cases rule: FreeMonster_step_cases)
  case (moving st3 dx dy r2)
  from callback_moves_self [OF a np moving m] show ?thesis .
next
  case resting
  with m show ?thesis by (simp add: not_moved_same_grid)
qed

lemma Ripper_step_moved:
  assumes a: "ahead mv" and np: "\<not> pusher (cls_of st a)"
    and res: "Ripper_step mv st a = Inr (r, st')" and m: "moved st st' b"
  shows "b = a"
  using res
proof (cases rule: Ripper_step_cases)
  case (moving st3 dx dy r2)
  from callback_moves_self [OF a np moving m] show ?thesis .
next
  case resting
  with m show ?thesis by (simp add: not_moved_same_grid)
qed

lemma move_ahead: "ahead (move n)"
proof (induction n)
  case 0
  show ?case by (simp add: ahead_def)
next
  case (Suc n)
  show ?case
    unfolding ahead_def
  proof (intro allI impI)
    fix st a other dx dy r st' b
    assume res: "move (Suc n) st a other dx dy = Inr (r, st')" and m: "moved st st' b"
    show "ahead_of st a dx dy b"
    proof (cases "cls_of st a")
      case KeyboardPlayer
      with res have "KeyboardPlayer_move (move n) st a other dx dy = Inr (r, st')"
        by (simp add: move.simps(2))
      from KeyboardPlayer_move_ahead [OF Suc _ this m] KeyboardPlayer show ?thesis
        by (simp add: pusher_def)
    next
      case Box
      with res have "Box_move (move n) st a other dx dy = Inr (r, st')"
        by (simp add: move.simps(2))
      from Box_move_ahead [OF Suc _ this m] Box show ?thesis by (simp add: pusher_def)
    next
      case StickyBox
      with res have "Box_move (move n) st a other dx dy = Inr (r, st')"
        by (simp add: move.simps(2))
      from Box_move_ahead [OF Suc _ this m] StickyBox show ?thesis by (simp add: pusher_def)
    next
      case Monster
      with res have "Monster_move st a other dx dy = Inr (r, st')" by (simp add: move.simps(2))
      from Monster_move_moved [OF this m] show ?thesis by (simp add: ahead_of_def)
    next
      case FreeMonster
      with res have "FreeMonster_move (FreeMonster_step (move n)) st a other dx dy = Inr (r, st')"
        by (simp add: move.simps(2))
      from FreeMonster_move_moved [OF _ this m] FreeMonster_step_moved [OF Suc, of st a _ _ b]
        FreeMonster
      show ?thesis by (auto simp: ahead_of_def pusher_def)
    next
      case BoxMonster
      with res have "FreeMonster_move (FreeMonster_step (move n)) st a other dx dy = Inr (r, st')"
        by (simp add: move.simps(2))
      from FreeMonster_move_moved [OF _ this m] FreeMonster_step_moved [OF Suc, of st a _ _ b]
        BoxMonster
      show ?thesis by (auto simp: ahead_of_def pusher_def)
    next
      case Boss
      with res have "FreeMonster_move (FreeMonster_step (move n)) st a other dx dy = Inr (r, st')"
        by (simp add: move.simps(2))
      from FreeMonster_move_moved [OF _ this m] FreeMonster_step_moved [OF Suc, of st a _ _ b]
        Boss
      show ?thesis by (auto simp: ahead_of_def pusher_def)
    next
      case Ripper
      with res have "Ripper_move (Ripper_step (move n)) st a other dx dy = Inr (r, st')"
        by (simp add: move.simps(2))
      from Ripper_move_moved [OF _ this m] Ripper_step_moved [OF Suc, of st a _ _ b] Ripper
      show ?thesis by (auto simp: ahead_of_def pusher_def)
    next
      case Actor
      with res have "Actor_move st a other dx dy = Inr (r, st')" by (simp add: move.simps(2))
      from Actor_move_moved [OF this m] show ?thesis by (simp add: ahead_of_def)
    next
      case Player
      with res have "Actor_move st a other dx dy = Inr (r, st')" by (simp add: move.simps(2))
      from Actor_move_moved [OF this m] show ?thesis by (simp add: ahead_of_def)
    next
      case Wall
      with res have "Actor_move st a other dx dy = Inr (r, st')" by (simp add: move.simps(2))
      from Actor_move_moved [OF this m] show ?thesis by (simp add: ahead_of_def)
    qed
  qed
qed

lemma keepsD:
  "keeps mv \<Longrightarrow> mv st a other dx dy = Inr (r, st') \<Longrightarrow> well_placed st
   \<Longrightarrow> guarded st a other dx dy \<Longrightarrow> well_placed st'"
  unfolding keeps_def by blast

lemma occupant_guarded:
  assumes "well_placed st" and "get_actor st x y = Some occ"
    and "\<not> isinstance (cls_of st occ) Wall" and "pusher (cls_of st self)"
  shows "guarded st occ self dx dy"
proof -
  from get_actor_SomeD [OF assms(2)] have "occ \<in> set (s_actors st)" by simp
  with assms(1) have "cls_of st occ \<noteq> Actor \<and> cls_of st occ \<noteq> Player"
    by (simp add: well_placed_def concrete_kinds_def)
  with assms(3,4) show ?thesis by (auto simp: guarded_def pusher_def)
qed

text \<open>A pusher steps into the cell it has found empty after the push.\<close>

lemma step_after_push:
  assumes a: "ahead mv" and wp1: "well_placed st1"
    and occ: "get_actor st (a_x (s_heap st a) + dx) (a_y (s_heap st a) + dy) = Some occ"
    and call: "mv st occ a dx dy = Inr (r1, st1)"
    and free: "get_actor st1 (a_x (s_heap st a) + dx) (a_y (s_heap st a) + dy) = None"
    and am: "Actor_move st1 a other dx dy = Inr (r, st')"
  shows "well_placed st'"
proof (cases "moved st st1 a")
  case True
  from pusher_not_moved_by_push [OF occ aheadD [OF a call True]]
  have z: "dx = 0" "dy = 0" by simp_all
  from am have "st' = st1\<lparr>s_heap := (s_heap st1)(a := (s_heap st1 a)
                   \<lparr>a_x := a_x (s_heap st1 a), a_y := a_y (s_heap st1 a)\<rparr>)\<rparr>"
    by (simp add: Actor_move_def set_position_def z)
  then have "same_grid st1 st'" by (simp add: same_grid_refl)
  from well_placed_same_grid [OF this wp1] show ?thesis .
next
  case False
  then have "a_x (s_heap st1 a) = a_x (s_heap st a)" "a_y (s_heap st1 a) = a_y (s_heap st a)"
    by (simp_all add: moved_def get_position_def)
  with free have "get_actor st1 (a_x (s_heap st1 a) + dx) (a_y (s_heap st1 a) + dy) = None"
    by simp
  from Actor_move_free [OF wp1 this am] show ?thesis .
qed

lemma KeyboardPlayer_move_keeps:
  assumes k: "keeps mv" and a: "ahead mv" and wp: "well_placed st"
    and p: "pusher (cls_of st a)"
    and res: "KeyboardPlayer_move mv st a other dx dy = Inr (r, st')"
  shows "well_placed st'"
  using res
proof (cases rule: KeyboardPlayer_move_cases)
  case direct
  from Actor_move_free [OF wp direct] show ?thesis .
next
  case still
  from well_placed_same_grid [OF this wp] show ?thesis .
next
  case (pushed occ r1 st1)
  from keepsD [OF k pushed(3) wp occupant_guarded [OF wp pushed(1,2) p]]
  have "well_placed st1" .
  from step_after_push [OF a this pushed(1,3,4,5)] show ?thesis .
next
  case (blocked occ r1 st1)
  from keepsD [OF k blocked(3) wp occupant_guarded [OF wp blocked(1,2) p]]
  have "well_placed st1" .
  from well_placed_same_grid [OF blocked(4) this] show ?thesis .
qed

lemma Box_move_keeps:
  assumes k: "keeps mv" and a: "ahead mv" and wp: "well_placed st"
    and p: "pusher (cls_of st a)"
    and res: "Box_move mv st a other dx dy = Inr (r, st')"
  shows "well_placed st'"
  using res
proof (cases rule: Box_move_cases)
  case direct
  from Actor_move_free [OF wp direct] show ?thesis .
next
  case still
  from well_placed_same_grid [OF this wp] show ?thesis .
next
  case (pushed occ r1 st1 r2)
  from keepsD [OF k pushed(3) wp occupant_guarded [OF wp pushed(1,2) p]]
  have "well_placed st1" .
  from step_after_push [OF a this pushed(1,3,4,5)] show ?thesis .
next
  case (blocked occ r1 st1)
  from keepsD [OF k blocked(3) wp occupant_guarded [OF wp blocked(1,2) p]]
  have "well_placed st1" .
  from well_placed_same_grid [OF blocked(4) this] show ?thesis .
qed

lemma Monster_move_keeps:
  assumes wp: "well_placed st"
    and h: "other = a \<longrightarrow> dx = a_dx (s_heap st a) \<and> dy = a_dy (s_heap st a)"
    and res: "Monster_move st a other dx dy = Inr (r, st')"
  shows "well_placed st'"
proof (cases "other = a")
  case False
  with res wp show ?thesis by (simp add: Monster_move_def)
next
  case True
  let ?x = "a_x (s_heap st a) + a_dx (s_heap st a)"
  let ?y = "a_y (s_heap st a) + a_dy (s_heap st a)"
  show ?thesis
  proof (cases "get_actor st ?x ?y = None \<and> is_in_bounds st ?x ?y")
    case free: True
    from free have "Monster_move st a a dx dy =
        Inr (True, set_position st a (a_x (s_heap st a) + dx) (a_y (s_heap st a) + dy))"
      by (auto simp: Monster_move_def Let_def is_in_bounds_def Actor_move_def set_position_def)
    with res True h have "st' = set_position st a ?x ?y" by simp
    with well_placed_set_position [OF wp, of ?x ?y a] free show ?thesis by simp
  next
    case False
    with res True have "same_grid st st'"
      by (auto simp: Monster_move_def Let_def is_in_bounds_def same_grid_def get_position_def
            cls_of_def fun_eq_iff split: if_splits)
    from well_placed_same_grid [OF this wp] show ?thesis .
  qed
qed

lemma well_placed_dead:
  "well_placed st \<Longrightarrow>
   well_placed (st\<lparr>s_heap := (s_heap st)(a := (s_heap st a)\<lparr>a_dead := True\<rparr>)\<rparr>)"
  by (rule well_placed_same_grid [OF same_grid_dead])

lemma FreeMonster_move_keeps:
  assumes stp: "\<And>r1 st1. stp st a = Inr (r1, st1) \<Longrightarrow> well_placed st1"
    and wp: "well_placed st"
    and res: "FreeMonster_move stp st a other dx dy = Inr (r, st')"
  shows "well_placed st'"
proof (cases "other = a")
  case False
  with res wp show ?thesis by (simp add: FreeMonster_move_def)
next
  case True
  let ?x = "a_x (s_heap st a) + dx" and ?y = "a_y (s_heap st a) + dy"
  show ?thesis
  proof (cases "get_actor st ?x ?y = None \<and> is_in_bounds st ?x ?y")
    case free: True
    with res True have "Actor_move st a other dx dy = Inr (r, st')"
      by (simp add: FreeMonster_move_def Let_def)
    from Actor_move_free [OF wp _ this] free show ?thesis by simp
  next
    case False
    with res True stp wp show ?thesis
      by (auto simp: FreeMonster_move_def Let_def well_placed_dead
            split: if_splits sum.splits)
  qed
qed

lemma Ripper_move_keeps:
  assumes stp: "\<And>r1 st1. stp st a = Inr (r1, st1) \<Longrightarrow> well_placed st1"
    and wp: "well_placed st"
    and res: "Ripper_move stp st a other dx dy = Inr (r, st')"
  shows "well_placed st'"
proof (cases "other = a")
  case False
  with res wp show ?thesis by (simp add: Ripper_move_def)
next
  case True
  let ?x = "a_x (s_heap st a) + dx" and ?y = "a_y (s_heap st a) + dy"
  show ?thesis
  proof (cases "get_actor st ?x ?y = None \<and> is_in_bounds st ?x ?y")
    case free: True
    with res True have "Actor_move st a other dx dy = Inr (r, st')"
      by (simp add: Ripper_move_def Let_def)
    from Actor_move_free [OF wp _ this] free show ?thesis by simp
  next
    case False
    with res True stp wp show ?thesis
      by (auto simp: Ripper_move_def Let_def well_placed_dead
            split: if_splits sum.splits)
  qed
qed

lemma wanderer_guarded:
  assumes "isinstance (cls_of st a) FreeMonster" and "same_grid st st3"
  shows "guarded st3 a a dx dy"
proof -
  from assms(2) have "cls_of st3 = cls_of st" by (simp add: same_grid_def)
  with assms(1) show ?thesis by (auto simp: guarded_def)
qed

lemma FreeMonster_step_keeps:
  assumes k: "keeps mv" and wp: "well_placed st" and c: "isinstance (cls_of st a) FreeMonster"
    and res: "FreeMonster_step mv st a = Inr (r, st')"
  shows "well_placed st'"
  using res
proof (cases rule: FreeMonster_step_cases)
  case (moving st3 dx dy r2)
  from keepsD [OF k moving(2) well_placed_same_grid [OF moving(1) wp]
      wanderer_guarded [OF c moving(1)]]
  show ?thesis .
next
  case resting
  from well_placed_same_grid [OF this wp] show ?thesis .
qed

lemma Ripper_step_keeps:
  assumes k: "keeps mv" and wp: "well_placed st" and c: "isinstance (cls_of st a) FreeMonster"
    and res: "Ripper_step mv st a = Inr (r, st')"
  shows "well_placed st'"
  using res
proof (cases rule: Ripper_step_cases)
  case (moving st3 dx dy r2)
  from keepsD [OF k moving(2) well_placed_same_grid [OF moving(1) wp]
      wanderer_guarded [OF c moving(1)]]
  show ?thesis .
next
  case resting
  from well_placed_same_grid [OF this wp] show ?thesis .
qed

lemma move_keeps: "keeps (move n)"
proof (induction n)
  case 0
  show ?case by (simp add: keeps_def)
next
  case (Suc n)
  note a = move_ahead [of n]
  show ?case
    unfolding keeps_def
  proof (intro allI impI)
    fix st a other dx dy r st'
    assume res: "move (Suc n) st a other dx dy = Inr (r, st')" and wp: "well_placed st"
      and g: "guarded st a other dx dy"
    show "well_placed st'"
    proof (cases "cls_of st a")
      case KeyboardPlayer
      with res have "KeyboardPlayer_move (move n) st a other dx dy = Inr (r, st')"
        by (simp add: move.simps(2))
      from KeyboardPlayer_move_keeps [OF Suc a wp _ this] KeyboardPlayer show ?thesis
        by (simp add: pusher_def)
    next
      case Box
      with res have "Box_move (move n) st a other dx dy = Inr (r, st')"
        by (simp add: move.simps(2))
      from Box_move_keeps [OF Suc a wp _ this] Box show ?thesis by (simp add: pusher_def)
    next
      case StickyBox
      with res have "Box_move (move n) st a other dx dy = Inr (r, st')"
        by (simp add: move.simps(2))
      from Box_move_keeps [OF Suc a wp _ this] StickyBox show ?thesis by (simp add: pusher_def)
    next
      case Monster
      with res have "Monster_move st a other dx dy = Inr (r, st')" by (simp add: move.simps(2))
      from Monster_move_keeps [OF wp _ this] g Monster show ?thesis by (simp add: guarded_def)
    next
      case FreeMonster
      with res have "FreeMonster_move (FreeMonster_step (move n)) st a other dx dy = Inr (r, st')"
        by (simp add: move.simps(2))
      from FreeMonster_move_keeps [OF _ wp this] FreeMonster_step_keeps [OF Suc wp, of a]
        FreeMonster
      show ?thesis by auto
    next
      case BoxMonster
      with res have "FreeMonster_move (FreeMonster_step (move n)) st a other dx dy = Inr (r, st')"
        by (simp add: move.simps(2))
      from FreeMonster_move_keeps [OF _ wp this] FreeMonster_step_keeps [OF Suc wp, of a]
        BoxMonster
      show ?thesis by auto
    next
      case Boss
      with res have "FreeMonster_move (FreeMonster_step (move n)) st a other dx dy = Inr (r, st')"
        by (simp add: move.simps(2))
      from FreeMonster_move_keeps [OF _ wp this] FreeMonster_step_keeps [OF Suc wp, of a]
        Boss
      show ?thesis by auto
    next
      case Ripper
      with res have "Ripper_move (Ripper_step (move n)) st a other dx dy = Inr (r, st')"
        by (simp add: move.simps(2))
      from Ripper_move_keeps [OF _ wp this] Ripper_step_keeps [OF Suc wp, of a] Ripper
      show ?thesis by auto
    next
      case Actor
      with g show ?thesis by (simp add: guarded_def)
    next
      case Player
      with g show ?thesis by (simp add: guarded_def)
    next
      case Wall
      with g show ?thesis by (simp add: guarded_def)
    qed
  qed
qed

lemma s_heap_set_position:
  "s_heap (set_position st a x y) = (s_heap st)(a := (s_heap st a)\<lparr>a_x := x, a_y := y\<rparr>)"
  by (simp add: set_position_def)

lemma s_actors_set_position: "s_actors (set_position st a x y) = s_actors st"
  by (simp add: set_position_def)

lemma s_size_set_position:
  "s_width (set_position st a x y) = s_width st" "s_height (set_position st a x y) = s_height st"
  by (simp_all add: set_position_def)

lemmas set_position_simps = s_heap_set_position s_actors_set_position s_size_set_position

text \<open>
  C2, as the claim states it, fails: a Wall has the \<^verbatim>\<open>move\<close> of \<^verbatim>\<open>Actor\<close>, which
  relocates without looking. On \<open>wall_stage\<close> the call returns \<^verbatim>\<open>True\<close> and leaves the
  Wall in the cell of the Box.
\<close>

theorem barrier_move_counterexample:
  "single_occupancy wall_stage \<and> grid_consistent wall_stage
   \<and> cls_of wall_stage 0 = Wall \<and> cls_of wall_stage 1 = Box
   \<and> s_actors wall_stage = [0, 1]
   \<and> get_position wall_stage 0 = (0, 0) \<and> get_position wall_stage 1 = (1, 0)
   \<and> move 1 wall_stage 0 0 1 0 = Inr (True, set_position wall_stage 0 1 0)
   \<and> get_position (set_position wall_stage 0 1 0) 0 = (1, 0)
   \<and> get_position (set_position wall_stage 0 1 0) 1 = (1, 0)
   \<and> \<not> single_occupancy (set_position wall_stage 0 1 0)
   \<and> get_actor (set_position wall_stage 0 1 0) 1 0 = Some 0"
  by (simp add: single_occupancy_def grid_consistent_def move.simps(2) Actor_move_def
        set_position_simps wall_stage_def build_defs grid_defs)

text \<open>
  C2, amended. On a stage where at most one actor stands at any position, every
  \<^verbatim>\<open>move\<close> that returns, of an Agent, a Box, a StickyBox or a hostile of any class,
  leaves a stage where again at most one actor stands at any position and
  \<^verbatim>\<open>get_actor\<close> finds each actor at its own position; for a Patrol hostile moving
  itself the call is the one its step makes, with the stored heading as arguments. The
  \<^verbatim>\<open>move\<close> a Wall inherits is not covered.
\<close>

theorem move_preserves_single_occupancy:
  assumes "move n st self other dx dy = Inr (r, st')"
    and "single_occupancy st" and "concrete_kinds st"
    and "cls_of st self \<noteq> Actor" and "cls_of st self \<noteq> Player" and "cls_of st self \<noteq> Wall"
    and "cls_of st self = Monster \<and> other = self \<longrightarrow>
           dx = a_dx (s_heap st self) \<and> dy = a_dy (s_heap st self)"
  shows "single_occupancy st' \<and> grid_consistent st'"
proof -
  from assms(2,3) have wp: "well_placed st" by (simp add: well_placed_def)
  from assms(4-7) have g: "guarded st self other dx dy" by (simp add: guarded_def)
  from keepsD [OF move_keeps assms(1) wp g] have "single_occupancy st'"
    by (simp add: well_placed_def)
  then show ?thesis by (simp add: grid_consistent_iff)
qed

theorem move_preserves_single_occupancy_witness:
  "single_occupancy push_stage \<and> concrete_kinds push_stage
   \<and> cls_of push_stage 0 = KeyboardPlayer
   \<and> move 3 push_stage 0 0 1 0 =
        Inr (True, set_position (set_position (set_position push_stage 2 3 0) 1 2 0) 0 1 0)
   \<and> single_occupancy (set_position (set_position (set_position push_stage 2 3 0) 1 2 0) 0 1 0)
   \<and> grid_consistent (set_position (set_position (set_position push_stage 2 3 0) 1 2 0) 0 1 0)"
proof -
  have a: "single_occupancy push_stage" "concrete_kinds push_stage"
    "cls_of push_stage 0 = KeyboardPlayer"
    by (simp_all add: single_occupancy_def concrete_kinds_def push_stage_def build_defs grid_defs)
  have run: "move 3 push_stage 0 0 1 0 =
        Inr (True, set_position (set_position (set_position push_stage 2 3 0) 1 2 0) 0 1 0)"
    by (simp add: numeral_3_eq_3 numeral_2_eq_2 move.simps(2) KeyboardPlayer_move_def
          Box_move_def Actor_move_def set_position_def push_stage_def build_defs grid_defs)
  from move_preserves_single_occupancy [OF run a(1,2)] a(3)
  show ?thesis using a run by simp
qed

section \<open>Pushing a line of boxes\<close>

lemma chain_at_nth:
  "chain_at st bs x y dx dy \<Longrightarrow> i < length bs \<Longrightarrow>
   bs ! i \<in> set (s_actors st) \<and> get_position st (bs ! i) = (x + int i * dx, y + int i * dy)
   \<and> isinstance (cls_of st (bs ! i)) Box"
proof (induction bs arbitrary: x y i)
  case Nil
  then show ?case by simp
next
  case (Cons b bs)
  show ?case
  proof (cases i)
    case 0
    with Cons.prems get_actor_SomeD [of st x y b] show ?thesis by simp
  next
    case (Suc j)
    with Cons.prems have "chain_at st bs (x + dx) (y + dy) dx dy" "j < length bs" by simp_all
    from Cons.IH [OF this] Suc show ?thesis by (simp add: algebra_simps)
  qed
qed

lemma chain_at_member:
  assumes "chain_at st bs x y dx dy" and "c \<in> set bs"
  obtains i where "i < length bs" and "get_position st c = (x + int i * dx, y + int i * dy)"
    and "c \<in> set (s_actors st)" and "isinstance (cls_of st c) Box"
proof -
  from assms(2) obtain i where "i < length bs" "bs ! i = c" by (auto simp: in_set_conv_nth)
  with chain_at_nth [OF assms(1), of i] that show thesis by auto
qed

lemma nonzero_multiple:
  assumes "dx \<noteq> 0 \<or> dy \<noteq> 0" and "0 < k"
  shows "(x + k * dx, y + k * dy) \<noteq> (x :: int, y :: int)"
  using assms by auto

lemma chain_not_at_start:
  assumes "chain_at st bs (x + dx) (y + dy) dx dy" and "dx \<noteq> 0 \<or> dy \<noteq> 0"
    and "get_position st b = (x, y)"
  shows "b \<notin> set bs"
proof
  assume "b \<in> set bs"
  from chain_at_member [OF assms(1) this] obtain i where
    "get_position st b = (x + dx + int i * dx, y + dy + int i * dy)" by blast
  with assms(3) have "(x + (int i + 1) * dx, y + (int i + 1) * dy) = (x, y)"
    by (simp add: algebra_simps)
  with nonzero_multiple [OF assms(2), of "int i + 1" x y] show False by simp
qed

lemma shifted_simps:
  "s_actors (shifted st as dx dy) = s_actors st"
  "s_width (shifted st as dx dy) = s_width st"
  "s_height (shifted st as dx dy) = s_height st"
  "cls_of (shifted st as dx dy) = cls_of st"
  "is_in_bounds (shifted st as dx dy) = is_in_bounds st"
  by (simp_all add: shifted_def cls_of_def is_in_bounds_def is_in_bounds_x_def
        is_in_bounds_y_def fun_eq_iff)

lemma get_position_shifted:
  "get_position (shifted st as dx dy) a =
     (if a \<in> set as then (fst (get_position st a) + dx, snd (get_position st a) + dy)
      else get_position st a)"
  by (simp add: shifted_def get_position_def)

lemma shifted_Nil: "shifted st [] dx dy = st"
  by (simp add: shifted_def)

lemma set_position_shifted:
  assumes "b \<notin> set bs" and "get_position st b = (x, y)"
  shows "set_position (shifted st bs dx dy) b (x + dx) (y + dy) = shifted st (b # bs) dx dy"
  using assms
  by (auto simp: set_position_def shifted_def get_position_def fun_eq_iff)

text \<open>After the boxes ahead have shifted, the cell they started from is empty.\<close>

lemma vacated_after_shift:
  assumes so: "single_occupancy st" and d: "dx \<noteq> 0 \<or> dy \<noteq> 0"
    and ch: "chain_at st (b # bs) x y dx dy"
  shows "get_actor (shifted st (b # bs) dx dy) x y = None"
  unfolding get_actor_None_iff shifted_simps
proof
  fix c
  assume c: "c \<in> set (s_actors st)"
  from ch have hb: "get_actor st x y = Some b" by simp
  from get_actor_SomeD [OF hb] have b: "b \<in> set (s_actors st)" "get_position st b = (x, y)"
    by simp_all
  show "get_position (shifted st (b # bs) dx dy) c \<noteq> (x, y)"
  proof (cases "c \<in> set (b # bs)")
    case False
    with b c so have "get_position st c \<noteq> (x, y)"
      unfolding single_occupancy_def by (metis list.set_intros(1))
    with False show ?thesis by (simp add: get_position_shifted)
  next
    case True
    from chain_at_member [OF ch True] obtain i where
      "get_position st c = (x + int i * dx, y + int i * dy)" by blast
    then have "get_position (shifted st (b # bs) dx dy) c
                 = (x + (int i + 1) * dx, y + (int i + 1) * dy)"
      using True by (simp add: get_position_shifted algebra_simps)
    with nonzero_multiple [OF d, of "int i + 1" x y] show ?thesis by simp
  qed
qed

text \<open>The outcomes of the move of a Box, by what the target cell holds.\<close>

lemma Box_move_free:
  assumes "is_in_bounds st (a_x (s_heap st b) + dx) (a_y (s_heap st b) + dy)"
    and "get_actor st (a_x (s_heap st b) + dx) (a_y (s_heap st b) + dy) = None"
  shows "Box_move mv st b other dx dy =
           Inr (True, set_position st b (a_x (s_heap st b) + dx) (a_y (s_heap st b) + dy))"
  using assms by (simp add: Box_move_def Actor_move_def)

lemma Box_move_out:
  assumes "\<not> is_in_bounds st (a_x (s_heap st b) + dx) (a_y (s_heap st b) + dy)"
  shows "Box_move mv st b other dx dy = Inr (False, st)"
  using assms by (simp add: Box_move_def)

lemma Box_move_wall:
  assumes "get_actor st (a_x (s_heap st b) + dx) (a_y (s_heap st b) + dy) = Some occ"
    and "isinstance (cls_of st occ) Wall"
  shows "Box_move mv st b other dx dy = Inr (False, st)"
  using assms by (simp add: Box_move_def Let_def del: isinstance.simps)

lemma Box_move_refused:
  assumes "get_actor st (a_x (s_heap st b) + dx) (a_y (s_heap st b) + dy) = Some occ"
    and "mv st occ b dx dy = Inr (r1, st)"
  shows "Box_move mv st b other dx dy = Inr (False, st)"
  using assms by (simp add: Box_move_def Let_def del: isinstance.simps)

lemma Box_move_pushed:
  assumes "is_in_bounds st (a_x (s_heap st b) + dx) (a_y (s_heap st b) + dy)"
    and "get_actor st (a_x (s_heap st b) + dx) (a_y (s_heap st b) + dy) = Some occ"
    and "\<not> isinstance (cls_of st occ) Wall"
    and "mv st occ b dx dy = Inr (r1, st1)"
    and "get_actor st1 (a_x (s_heap st b) + dx) (a_y (s_heap st b) + dy) = None"
  shows "Box_move mv st b other dx dy =
           Inr (False, set_position st1 b (a_x (s_heap st1 b) + dx) (a_y (s_heap st1 b) + dy))"
  using assms by (simp add: Box_move_def Let_def Actor_move_def del: isinstance.simps)

lemma KeyboardPlayer_move_refused:
  assumes "get_actor st (a_x (s_heap st p) + dx) (a_y (s_heap st p) + dy) = Some occ"
    and "mv st occ p dx dy = Inr (r1, st)" and "\<not> isinstance (cls_of st occ) Monster"
  shows "KeyboardPlayer_move mv st p other dx dy = Inr (False, st)"
  using assms
  by (simp add: KeyboardPlayer_move_def Let_def actor_isinstance_def del: isinstance.simps)

lemma KeyboardPlayer_move_pushed:
  assumes "is_in_bounds st (a_x (s_heap st p) + dx) (a_y (s_heap st p) + dy)"
    and "get_actor st (a_x (s_heap st p) + dx) (a_y (s_heap st p) + dy) = Some occ"
    and "\<not> isinstance (cls_of st occ) Wall"
    and "mv st occ p dx dy = Inr (r1, st1)"
    and "get_actor st1 (a_x (s_heap st p) + dx) (a_y (s_heap st p) + dy) = None"
  shows "KeyboardPlayer_move mv st p other dx dy =
           Inr (True, set_position st1 p (a_x (s_heap st1 p) + dx) (a_y (s_heap st1 p) + dy))"
  using assms by (simp add: KeyboardPlayer_move_def Let_def Actor_move_def del: isinstance.simps)

lemma box_chain_push:
  assumes so: "single_occupancy st" and d: "dx \<noteq> 0 \<or> dy \<noteq> 0"
    and ch: "chain_at st (b # bs) x y dx dy"
    and endc: "\<forall>occ. get_actor st (x + (int (length bs) + 1) * dx)
                                  (y + (int (length bs) + 1) * dy) = Some occ \<longrightarrow>
                 isinstance (cls_of st occ) Wall \<or> isinstance (cls_of st occ) Monster"
    and fuel: "length bs + 2 \<le> n"
  shows "move n st b other dx dy =
     (if is_in_bounds st (x + (int (length bs) + 1) * dx) (y + (int (length bs) + 1) * dy)
         \<and> get_actor st (x + (int (length bs) + 1) * dx) (y + (int (length bs) + 1) * dy) = None
      then Inr (bs = [], shifted st (b # bs) dx dy)
      else Inr (False, st))"
  using ch endc fuel
proof (induction bs arbitrary: b x y other n)
  case Nil
  from Nil.prems(1) have hb: "get_actor st x y = Some b" and box: "isinstance (cls_of st b) Box"
    by simp_all
  from get_actor_SomeD [OF hb] have pos: "a_x (s_heap st b) = x" "a_y (s_heap st b) = y"
    by (simp_all add: get_position_def)
  from Nil.prems(3) obtain m where n: "n = Suc (Suc m)"
    by (cases n rule: nat.exhaust; cases "n - 1") auto
  have mv: "move n st b other dx dy = Box_move (move (Suc m)) st b other dx dy"
    unfolding n using move_Box [OF box] .
  show ?case
  proof (cases "is_in_bounds st (x + dx) (y + dy)")
    case False
    with Box_move_out [of st b dx dy] show ?thesis by (simp add: mv pos)
  next
    case inb: True
    show ?thesis
    proof (cases "get_actor st (x + dx) (y + dy)")
      case None
      from Box_move_free [of st b dx dy] inb None
      have "Box_move (move (Suc m)) st b other dx dy = Inr (True, set_position st b (x + dx) (y + dy))"
        by (simp add: pos)
      also have "set_position st b (x + dx) (y + dy) = shifted st [b] dx dy"
        using set_position_shifted [of b "[]" st x y dx dy] pos
        by (simp add: shifted_Nil get_position_def)
      finally show ?thesis using inb None by (simp add: mv)
    next
      case (Some occ)
      with Nil.prems(2) have k: "isinstance (cls_of st occ) Wall \<or> isinstance (cls_of st occ) Monster"
        by simp
      have "Box_move (move (Suc m)) st b other dx dy = Inr (False, st)"
      proof (cases "isinstance (cls_of st occ) Wall")
        case True
        from Box_move_wall [of st b dx dy occ] Some True show ?thesis by (simp add: pos)
      next
        case False
        with k have mon: "isinstance (cls_of st occ) Monster" by simp
        with box have "b \<noteq> occ" by auto
        from pushed_monster_refuses [OF mon this]
        have call: "move (Suc m) st occ b dx dy = Inr (False, st)" .
        from Some have "get_actor st (a_x (s_heap st b) + dx) (a_y (s_heap st b) + dy) = Some occ"
          by (simp add: pos)
        from Box_move_refused [where mv = "move (Suc m)", OF this call] show ?thesis .
      qed
      with Some show ?thesis by (simp add: mv)
    qed
  qed
next
  case (Cons b' bs)
  from Cons.prems(1) have hb: "get_actor st x y = Some b" and box: "isinstance (cls_of st b) Box"
    and ch': "chain_at st (b' # bs) (x + dx) (y + dy) dx dy"
    by simp_all
  from get_actor_SomeD [OF hb] have gp: "get_position st b = (x, y)" by simp
  then have pos: "a_x (s_heap st b) = x" "a_y (s_heap st b) = y"
    by (simp_all add: get_position_def)
  from ch' have hb': "get_actor st (x + dx) (y + dy) = Some b'"
    and inb: "is_in_bounds st (x + dx) (y + dy)" and box': "isinstance (cls_of st b') Box"
    by simp_all
  from box' have nw: "\<not> isinstance (cls_of st b') Wall" by auto
  from Cons.prems(3) obtain m where n: "n = Suc m" and fm: "length bs + 2 \<le> m"
    by (cases n) auto
  have mv: "move n st b other dx dy = Box_move (move m) st b other dx dy"
    unfolding n using move_Box [OF box] .
  let ?ex = "x + (int (length (b' # bs)) + 1) * dx"
  let ?ey = "y + (int (length (b' # bs)) + 1) * dy"
  have e: "x + dx + (int (length bs) + 1) * dx = ?ex" "y + dy + (int (length bs) + 1) * dy = ?ey"
    by (simp_all add: algebra_simps)
  from Cons.prems(2) have endc': "\<forall>occ. get_actor st (x + dx + (int (length bs) + 1) * dx)
        (y + dy + (int (length bs) + 1) * dy) = Some occ \<longrightarrow>
        isinstance (cls_of st occ) Wall \<or> isinstance (cls_of st occ) Monster"
    unfolding e .
  note ih = Cons.IH [OF ch' endc' fm, of b, unfolded e]
  show ?case
  proof (cases "is_in_bounds st ?ex ?ey \<and> get_actor st ?ex ?ey = None")
    case True
    with ih have call: "move m st b' b dx dy = Inr (bs = [], shifted st (b' # bs) dx dy)"
      by simp
    have nb: "b \<notin> set (b' # bs)" using chain_not_at_start [OF ch' d gp] .
    have free: "get_actor (shifted st (b' # bs) dx dy) (x + dx) (y + dy) = None"
      using vacated_after_shift [OF so d ch'] .
    from nb have same: "a_x (s_heap (shifted st (b' # bs) dx dy) b) = x"
      "a_y (s_heap (shifted st (b' # bs) dx dy) b) = y"
      using pos by (simp_all add: shifted_def)
    from Box_move_pushed [where mv = "move m" and st = st and b = b, unfolded pos,
        OF inb hb' nw call free]
    have "Box_move (move m) st b other dx dy =
            Inr (False, set_position (shifted st (b' # bs) dx dy) b (x + dx) (y + dy))"
      by (simp add: same)
    also have "set_position (shifted st (b' # bs) dx dy) b (x + dx) (y + dy)
                 = shifted st (b # b' # bs) dx dy"
      using set_position_shifted [OF nb gp] .
    finally show ?thesis by (simp only: mv if_P [OF True]) simp
  next
    case False
    with ih have call: "move m st b' b dx dy = Inr (False, st)" by auto
    from Box_move_refused [where mv = "move m" and st = st and b = b, unfolded pos, OF hb' call]
    show ?thesis by (simp only: mv if_not_P [OF False])
  qed
qed

text \<open>
  C1. The Agent stands before a straight line of N boxes (N at least 1), and the line
  ends there: the cell past its far end is out of bounds, or empty, or holds a Wall or a
  hostile. If that cell is in bounds and empty, the Agent's \<^verbatim>\<open>move\<close> returns
  \<^verbatim>\<open>True\<close> and leaves the stage in which the Agent and each of the N boxes stand one
  cell further in the direction of the push, all else unchanged; otherwise it returns
  \<^verbatim>\<open>False\<close> and leaves the stage as it was. The push nests one call per box below the
  Agent's, and one more when a hostile is asked to move: the result holds for every depth
  budget of at least N + 2.
\<close>

theorem agent_pushes_chain:
  assumes "cls_of st p = KeyboardPlayer" and "single_occupancy st"
    and "dx \<noteq> 0 \<or> dy \<noteq> 0" and "bs \<noteq> []"
    and "chain_at st bs (a_x (s_heap st p) + dx) (a_y (s_heap st p) + dy) dx dy"
    and "ex = a_x (s_heap st p) + (int (length bs) + 1) * dx"
    and "ey = a_y (s_heap st p) + (int (length bs) + 1) * dy"
    and "\<forall>occ. get_actor st ex ey = Some occ \<longrightarrow>
           isinstance (cls_of st occ) Wall \<or> isinstance (cls_of st occ) Monster"
    and "length bs + 2 \<le> n"
  shows "move n st p other dx dy =
     (if is_in_bounds st ex ey \<and> get_actor st ex ey = None
      then Inr (True, shifted st (p # bs) dx dy)
      else Inr (False, st))"
proof -
  let ?x = "a_x (s_heap st p)" and ?y = "a_y (s_heap st p)"
  from assms(4) obtain b bs' where bs: "bs = b # bs'" by (cases bs) auto
  from assms(5) have ch: "chain_at st (b # bs') (?x + dx) (?y + dy) dx dy" by (simp add: bs)
  then have hb: "get_actor st (?x + dx) (?y + dy) = Some b"
    and inb: "is_in_bounds st (?x + dx) (?y + dy)" and box: "isinstance (cls_of st b) Box"
    by simp_all
  from box have nw: "\<not> isinstance (cls_of st b) Wall"
    and nm: "\<not> isinstance (cls_of st b) Monster" by auto
  from assms(9) obtain m where n: "n = Suc m" and fm: "length bs' + 2 \<le> m"
    by (cases n) (auto simp: bs)
  have mv: "move n st p other dx dy = KeyboardPlayer_move (move m) st p other dx dy"
    unfolding n using move_KeyboardPlayer [OF assms(1)] .
  have e: "?x + dx + (int (length bs') + 1) * dx = ex" "?y + dy + (int (length bs') + 1) * dy = ey"
    by (simp_all add: assms(6,7) bs algebra_simps)
  from assms(8) have endc: "\<forall>occ. get_actor st (?x + dx + (int (length bs') + 1) * dx)
        (?y + dy + (int (length bs') + 1) * dy) = Some occ \<longrightarrow>
        isinstance (cls_of st occ) Wall \<or> isinstance (cls_of st occ) Monster"
    unfolding e .
  note push = box_chain_push [OF assms(2,3) ch endc fm, of p, unfolded e]
  have gp: "get_position st p = (?x, ?y)" by (simp add: get_position_def)
  show ?thesis
  proof (cases "is_in_bounds st ex ey \<and> get_actor st ex ey = None")
    case True
    with push have call: "move m st b p dx dy = Inr (bs' = [], shifted st (b # bs') dx dy)"
      by simp
    have np: "p \<notin> set (b # bs')" using chain_not_at_start [OF ch assms(3) gp] .
    have free: "get_actor (shifted st (b # bs') dx dy) (?x + dx) (?y + dy) = None"
      using vacated_after_shift [OF assms(2,3) ch] .
    from np have same: "a_x (s_heap (shifted st (b # bs') dx dy) p) = ?x"
      "a_y (s_heap (shifted st (b # bs') dx dy) p) = ?y"
      by (simp_all add: shifted_def)
    from KeyboardPlayer_move_pushed [where mv = "move m", OF inb hb nw call free]
    have "KeyboardPlayer_move (move m) st p other dx dy =
            Inr (True, set_position (shifted st (b # bs') dx dy) p (?x + dx) (?y + dy))"
      by (simp add: same)
    also have "set_position (shifted st (b # bs') dx dy) p (?x + dx) (?y + dy)
                 = shifted st (p # b # bs') dx dy"
      using set_position_shifted [OF np gp] .
    finally show ?thesis by (simp only: mv if_P [OF True] bs)
  next
    case False
    with push have call: "move m st b p dx dy = Inr (False, st)" by auto
    from KeyboardPlayer_move_refused [where mv = "move m", OF hb call nm]
    show ?thesis by (simp only: mv if_not_P [OF False])
  qed
qed

theorem agent_pushes_chain_witness:
  "cls_of push_stage 0 = KeyboardPlayer \<and> get_position push_stage 0 = (0, 0)
   \<and> single_occupancy push_stage \<and> chain_at push_stage [1, 2] 1 0 1 0
   \<and> is_in_bounds push_stage 3 0 \<and> get_actor push_stage 3 0 = None
   \<and> move 4 push_stage 0 0 1 0 = Inr (True, shifted push_stage [0, 1, 2] 1 0)
   \<and> get_position (shifted push_stage [0, 1, 2] 1 0) 0 = (1, 0)
   \<and> get_position (shifted push_stage [0, 1, 2] 1 0) 1 = (2, 0)
   \<and> get_position (shifted push_stage [0, 1, 2] 1 0) 2 = (3, 0)
   \<and> cls_of jam_stage 0 = KeyboardPlayer \<and> get_position jam_stage 0 = (0, 0)
   \<and> single_occupancy jam_stage \<and> chain_at jam_stage [1, 2] 1 0 1 0
   \<and> \<not> is_in_bounds jam_stage 3 0
   \<and> move 4 jam_stage 0 0 1 0 = Inr (False, jam_stage)"
proof -
  have p: "cls_of push_stage 0 = KeyboardPlayer" "single_occupancy push_stage"
    "a_x (s_heap push_stage 0) = 0" "a_y (s_heap push_stage 0) = 0"
    "chain_at push_stage [1, 2] 1 0 1 0"
    "is_in_bounds push_stage 3 0" "get_actor push_stage 3 0 = None"
    by (simp_all add: single_occupancy_def push_stage_def build_defs grid_defs)
  have j: "cls_of jam_stage 0 = KeyboardPlayer" "single_occupancy jam_stage"
    "a_x (s_heap jam_stage 0) = 0" "a_y (s_heap jam_stage 0) = 0"
    "chain_at jam_stage [1, 2] 1 0 1 0"
    "\<not> is_in_bounds jam_stage 3 0" "get_actor jam_stage 3 0 = None"
    by (simp_all add: single_occupancy_def jam_stage_def build_defs grid_defs)
  have sh: "get_position (shifted push_stage [0, 1, 2] 1 0) 0 = (1, 0)"
    "get_position (shifted push_stage [0, 1, 2] 1 0) 1 = (2, 0)"
    "get_position (shifted push_stage [0, 1, 2] 1 0) 2 = (3, 0)"
    by (simp_all add: shifted_def get_position_def push_stage_def build_defs)
  have f: "length [1::nat, 2] + 2 \<le> 4" by simp
  have d: "(1::int) \<noteq> 0 \<or> (0::int) \<noteq> 0" by simp
  have ne: "[1::nat, 2] \<noteq> []" by simp
  have pc: "chain_at push_stage [1, 2] (a_x (s_heap push_stage 0) + 1)
              (a_y (s_heap push_stage 0) + 0) 1 0"
    using p(5) by (simp only: p(3,4)) simp
  have pe: "(3::int) = a_x (s_heap push_stage 0) + (int (length [1::nat, 2]) + 1) * 1"
    "(0::int) = a_y (s_heap push_stage 0) + (int (length [1::nat, 2]) + 1) * 0"
    by (simp_all add: p(3,4))
  have pw: "\<forall>occ. get_actor push_stage 3 0 = Some occ \<longrightarrow>
           isinstance (cls_of push_stage occ) Wall \<or> isinstance (cls_of push_stage occ) Monster"
    by (simp add: p(7))
  have run: "move 4 push_stage 0 0 1 0 = Inr (True, shifted push_stage [0, 1, 2] 1 0)"
    using agent_pushes_chain [OF p(1,2) d ne pc pe pw f, of 0]
    by (simp only: p(6,7) simp_thms if_True)
  have jc: "chain_at jam_stage [1, 2] (a_x (s_heap jam_stage 0) + 1)
              (a_y (s_heap jam_stage 0) + 0) 1 0"
    using j(5) by (simp only: j(3,4)) simp
  have je: "(3::int) = a_x (s_heap jam_stage 0) + (int (length [1::nat, 2]) + 1) * 1"
    "(0::int) = a_y (s_heap jam_stage 0) + (int (length [1::nat, 2]) + 1) * 0"
    by (simp_all add: j(3,4))
  have jw: "\<forall>occ. get_actor jam_stage 3 0 = Some occ \<longrightarrow>
           isinstance (cls_of jam_stage occ) Wall \<or> isinstance (cls_of jam_stage occ) Monster"
    by (simp add: j(7))
  have jam: "move 4 jam_stage 0 0 1 0 = Inr (False, jam_stage)"
    using agent_pushes_chain [OF j(1,2) d ne jc je jw f, of 0] j(6)
    by (simp only: simp_thms if_False)
  have gp: "get_position push_stage 0 = (0, 0)" "get_position jam_stage 0 = (0, 0)"
    by (simp_all add: get_position_def p(3,4) j(3,4))
  show ?thesis
    by (intro conjI p(1,2,5,6,7) j(1,2,5,6) sh run jam gp)
qed

end
